theory Spec2Isabelle
  imports Complex_Main "HOL-Library.AList"
begin

section \<open>Python values\<close>

text \<open>
  The two programs of the repository are \<^verbatim>\<open>test-macol.py\<close> (class \<^verbatim>\<open>CLMAB\<close> on sectors
  and vehicles of the Pymosim platform) and \<^verbatim>\<open>toy-example/main.py\<close> (class
  \<^verbatim>\<open>MACOLSolution\<close> on base stations and vehicles). Objects are referred to by natural
  numbers; the fields of the objects live in stores indexed by these references.
  Python numbers (simulated time, durations, rewards) are modelled as exact reals: integers
  embed exactly, and the rounding of floating point division is not modelled.
  A Python \<^verbatim>\<open>dict\<close> is an association list in insertion order, written with
  \<open>AList.update\<close> (an existing key keeps its place, a new key goes last) and read
  with \<open>map_of\<close>. Every \<^verbatim>\<open>raise\<close> of the interpreter that the code can reach is a value
  of \<open>py_error\<close>.
\<close>

datatype py_error = KeyError | ZeroDivisionError | AttributeError

section \<open>The bandit tables, common to \<^verbatim>\<open>CLMAB\<close> and \<^verbatim>\<open>MACOLSolution\<close>\<close>

text \<open>
  Both classes declare \<^verbatim>\<open>exploration_rate\<close>, \<^verbatim>\<open>exploration_time\<close>, \<^verbatim>\<open>q_value\<close> and
  \<^verbatim>\<open>q_count\<close>, and their methods \<^verbatim>\<open>get_reward\<close> and \<^verbatim>\<open>update_reward\<close> have the same text
  (with \<^verbatim>\<open>sector\<close> renamed \<^verbatim>\<open>bs\<close>). The record below holds these fields; each class
  extends it. The type \<open>'k\<close> is the type of context keys.
\<close>

record 'k mab =
  exploration_rate :: real
  exploration_time :: real
  q_value :: "nat \<Rightarrow> ('k \<times> real) list"
  q_count :: "nat \<Rightarrow> ('k \<times> nat) list"

text \<open>
  \<^verbatim>\<open>get_reward\<close> (\<^verbatim>\<open>test-macol.py\<close> lines 340-345, \<^verbatim>\<open>toy-example/main.py\<close> lines 267-272):
  \<^verbatim>\<open>if context not in self.q_value[sector]: return 0\<close>
  \<^verbatim>\<open>return self.q_value[sector][context]\<close>
\<close>

definition get_reward :: "('k, 'a) mab_scheme \<Rightarrow> nat \<Rightarrow> 'k \<Rightarrow> real" where
  "get_reward self sector context =
     (case map_of (q_value self sector) context of
        None \<Rightarrow> 0
      | Some v \<Rightarrow> v)"

text \<open>
  \<^verbatim>\<open>update_reward\<close> (\<^verbatim>\<open>test-macol.py\<close> lines 327-338, \<^verbatim>\<open>toy-example/main.py\<close> lines 255-265):
  a context that is not in \<^verbatim>\<open>q_value[sector]\<close> is entered with value 0
  and count 0 in both tables; then \<^verbatim>\<open>value = q_value*q_count + reward\<close>, the count is
  incremented and the value becomes \<^verbatim>\<open>value / q_count\<close>. Reading \<^verbatim>\<open>q_count[sector][context]\<close>
  for a context that \<^verbatim>\<open>q_value\<close> has and \<^verbatim>\<open>q_count\<close> has not raises \<^verbatim>\<open>KeyError\<close>.
  (\<^verbatim>\<open>CLMAB.update_reward\<close> first prints a warning when the context is \<^verbatim>\<open>None\<close>; printing
  is not modelled.)
\<close>

definition update_reward ::
  "('k, 'a) mab_scheme \<Rightarrow> nat \<Rightarrow> 'k \<Rightarrow> real \<Rightarrow> py_error + ('k, 'a) mab_scheme" where
  "update_reward self sector context reward =
     (let self1 =
        (if map_of (q_value self sector) context = None
         then self\<lparr>q_value := (q_value self)(sector := AList.update context 0 (q_value self sector)),
                   q_count := (q_count self)(sector := AList.update context 0 (q_count self sector))\<rparr>
         else self)
      in case map_of (q_value self1 sector) context of
           None \<Rightarrow> Inl KeyError
         | Some qv \<Rightarrow>
             (case map_of (q_count self1 sector) context of
                None \<Rightarrow> Inl KeyError
              | Some qc \<Rightarrow>
                  (let value = qv * real qc + reward;
                       self2 = self1\<lparr>q_count := (q_count self1)
                                 (sector := AList.update context (qc + 1) (q_count self1 sector))\<rparr>
                   in Inr (self2\<lparr>q_value := (q_value self2)
                            (sector := AList.update context (value / real (qc + 1))
                                         (q_value self2 sector))\<rparr>))))"

text \<open>
  \<^verbatim>\<open>CLMAB.get_threshold\<close> (\<^verbatim>\<open>test-macol.py\<close> lines 315-325): 0 for an empty table, else
  the loop
  \<^verbatim>\<open>for context in self.q_value[sector]: sum += self.q_value[sector][context]\<close>
  and \<^verbatim>\<open>sum/len(self.q_value[sector])\<close>.
\<close>

fun sum_contexts :: "('k \<times> real) list \<Rightarrow> 'k list \<Rightarrow> real \<Rightarrow> py_error + real" where
  "sum_contexts d [] acc = Inr acc"
| "sum_contexts d (context # rest) acc =
     (case map_of d context of
        None \<Rightarrow> Inl KeyError
      | Some v \<Rightarrow> sum_contexts d rest (acc + v))"

definition get_threshold :: "('k, 'a) mab_scheme \<Rightarrow> nat \<Rightarrow> py_error + real" where
  "get_threshold self sector =
     (if length (q_value self sector) = 0 then Inr 0
      else case sum_contexts (q_value self sector) (map fst (q_value self sector)) 0 of
             Inl e \<Rightarrow> Inl e
           | Inr acc \<Rightarrow> Inr (acc / real (length (q_value self sector))))"

text \<open>
  \<^verbatim>\<open>MACOLSolution.get_threshold\<close> (\<^verbatim>\<open>toy-example/main.py\<close> lines 245-253): 0 for an empty
  table, else
  \<^verbatim>\<open>context_list = list(self.q_value[bs].values())\<close> and
  \<^verbatim>\<open>sum(context_list)/len(context_list)\<close>.
\<close>

definition toy_get_threshold :: "('k, 'a) mab_scheme \<Rightarrow> nat \<Rightarrow> real" where
  "toy_get_threshold self bs =
     (if length (q_value self bs) = 0 then 0
      else (let context_list = map snd (q_value self bs)
            in sum_list context_list / real (length context_list)))"





text \<open>
  The two tables of an agent list the same contexts: what the constructor establishes
  (both empty) and \<^verbatim>\<open>update_reward\<close> keeps.
\<close>

definition tables_agree :: "('k, 'a) mab_scheme \<Rightarrow> bool" where
  "tables_agree self =
     (\<forall>s c. map_of (q_value self s) c \<noteq> None \<longrightarrow> map_of (q_count self s) c \<noteq> None)"

section \<open>\<^verbatim>\<open>test-macol.py\<close>: sectors, vehicles and \<^verbatim>\<open>CLMAB\<close>\<close>

text \<open>
  \<^verbatim>\<open>MySector\<close> and \<^verbatim>\<open>MyVehicle\<close>, with the fields that \<^verbatim>\<open>CLMAB.execute\<close> and the statistics
  loop of \<^verbatim>\<open>MyScenario.do_mobility\<close> read or write. Locations, drawing and the per-period
  statistics other than \<^verbatim>\<open>period_conn_count\<close> are left out. \<^verbatim>\<open>neighbour_list\<close> holds references
  to sectors. \<^verbatim>\<open>MAB_context\<close> is \<^verbatim>\<open>None\<close> or a string.
\<close>

record my_sector =
  serving_node :: "nat option"
  total_duration :: real
  total_interference_free :: real
  period_conn_count :: nat
  serving_duration :: real
  serving_interference_free :: real
  neighbour_list :: "nat list"
  MAB_context :: "string option"
  MAB_backoff :: "real \<times> real"

record my_vehicle =
  associated_sector :: "nat option"
  has_interference :: bool

text \<open>
  The state of a run: the \<^verbatim>\<open>CLMAB\<close> object (the bandit tables and \<^verbatim>\<open>is_exploration_over\<close>),
  the global \<^verbatim>\<open>gvar.algo["epsilon"]\<close>, and the stores of sector and vehicle objects.
  The constructor creates a table for every sector of \<^verbatim>\<open>sector_list\<close>; \<open>q_value\<close> and
  \<open>q_count\<close> are total functions, so every sector reference has a table.
\<close>

record clmab_state = "string option mab" +
  is_exploration_over :: bool
  gvar_epsilon :: real
  sector_of :: "nat \<Rightarrow> my_sector"
  vehicle_of :: "nat \<Rightarrow> my_vehicle"

text \<open>
  What the platform answers during one call of \<^verbatim>\<open>execute\<close> or \<^verbatim>\<open>do_mobility\<close>:
  \<open>broadcast env s\<close> is the list of nodes that reply to the beacon of sector \<open>s\<close>
  (\<^verbatim>\<open>sector.transceiver.broadcast(beacon)\<close>, the signal of each reply dropped);
  \<open>unicast env v s\<close> says that the reply of vehicle \<open>v\<close> reaches sector \<open>s\<close>
  (\<^verbatim>\<open>node.transceiver.unicast(beacon_reply,sector)\<close> is not \<^verbatim>\<open>None\<close>);
  \<open>random_choice env s\<close> is the index that \<^verbatim>\<open>random.choice\<close> draws for sector \<open>s\<close>, taken
  modulo the length of the list; \<open>random_random env s\<close> is the value of
  \<^verbatim>\<open>random.random()\<close> for sector \<open>s\<close>; \<open>vehicle_broadcast env v\<close> and \<open>probe env b v\<close> are the
  replies to the beacon of vehicle \<open>v\<close> and whether the probe of beam \<open>b\<close> reaches \<open>v\<close>.
\<close>

datatype node = VehicleNode nat | BaseStationNode nat

record env =
  broadcast :: "nat \<Rightarrow> node list"
  unicast :: "nat \<Rightarrow> nat \<Rightarrow> bool"
  random_choice :: "nat \<Rightarrow> nat"
  random_random :: "nat \<Rightarrow> real"
  vehicle_broadcast :: "nat \<Rightarrow> node list"
  probe :: "nat \<Rightarrow> nat \<Rightarrow> bool"

text \<open>\<^verbatim>\<open>MySector.__init__\<close> (with the neighbours that \<^verbatim>\<open>on_create\<close> appends), \<^verbatim>\<open>MyVehicle.__init__\<close> and \<^verbatim>\<open>CLMAB.__init__\<close>.\<close>

definition MySector_init :: "nat list \<Rightarrow> my_sector" where
  "MySector_init neighbours =
     \<lparr>serving_node = None, total_duration = 0, total_interference_free = 0,
      period_conn_count = 0, serving_duration = 0, serving_interference_free = 0,
      neighbour_list = neighbours, MAB_context = None, MAB_backoff = (0, 0)\<rparr>"

definition MyVehicle_init :: my_vehicle where
  "MyVehicle_init = \<lparr>associated_sector = None, has_interference = False\<rparr>"

definition CLMAB_init :: "real \<Rightarrow> real \<Rightarrow> (nat \<Rightarrow> nat list) \<Rightarrow> clmab_state" where
  "CLMAB_init explore_first eps neighbours =
     \<lparr>exploration_rate = 1, exploration_time = explore_first,
      q_value = (\<lambda>sector. []), q_count = (\<lambda>sector. []),
      is_exploration_over = False, gvar_epsilon = eps,
      sector_of = (\<lambda>sector. MySector_init (neighbours sector)),
      vehicle_of = (\<lambda>vehicle. MyVehicle_init)\<rparr>"

text \<open>\<^verbatim>\<open>MySector.associate_vehicle\<close>, \<^verbatim>\<open>lost_vehicle\<close>, \<^verbatim>\<open>backoff\<close> and \<^verbatim>\<open>is_backoff\<close>
  (lines 109-130).
  \<^verbatim>\<open>lost_vehicle\<close> dereferences \<^verbatim>\<open>self.serving_node\<close>, which raises on \<^verbatim>\<open>None\<close>.\<close>

definition associate_vehicle :: "clmab_state \<Rightarrow> nat \<Rightarrow> nat \<Rightarrow> real \<Rightarrow> clmab_state" where
  "associate_vehicle st sector node time =
     st\<lparr>sector_of := (sector_of st)
           (sector := (sector_of st sector)
              \<lparr>serving_node := Some node,
               serving_duration := 0,
               serving_interference_free := 0,
               period_conn_count := period_conn_count (sector_of st sector) + 1\<rparr>),
        vehicle_of := (vehicle_of st)
           (node := (vehicle_of st node)\<lparr>associated_sector := Some sector\<rparr>)\<rparr>"

definition lost_vehicle :: "clmab_state \<Rightarrow> nat \<Rightarrow> real \<Rightarrow> py_error + clmab_state" where
  "lost_vehicle st sector time =
     (case serving_node (sector_of st sector) of
        None \<Rightarrow> Inl AttributeError
      | Some node \<Rightarrow>
          Inr (st\<lparr>vehicle_of := (vehicle_of st)
                     (node := (vehicle_of st node)\<lparr>associated_sector := None\<rparr>),
                  sector_of := (sector_of st)
                     (sector := (sector_of st sector)\<lparr>serving_node := None\<rparr>)\<rparr>))"

definition backoff :: "my_sector \<Rightarrow> real \<Rightarrow> real \<Rightarrow> my_sector" where
  "backoff self start_time duration = self\<lparr>MAB_backoff := (start_time, duration)\<rparr>"

definition is_backoff :: "my_sector \<Rightarrow> real \<Rightarrow> bool" where
  "is_backoff self check_time =
     (case MAB_backoff self of
        (start_time, duration) \<Rightarrow> (if check_time - start_time < duration then True else False))"

text \<open>\<^verbatim>\<open>CLMAB.get_current_context\<close> (lines 307-313): the loop appends one character per
  neighbour.\<close>

definition get_current_context :: "clmab_state \<Rightarrow> nat \<Rightarrow> string" where
  "get_current_context st sector =
     foldl (\<lambda>context neighbour.
              context @ (if serving_node (sector_of st neighbour) \<noteq> None then ''1'' else ''0''))
           ''['' (neighbour_list (sector_of st sector))
     @ '']''"

text \<open>
  \<^verbatim>\<open>CLMAB.execute\<close> (lines 347-455), first block (lines 351-366): the exploration rate
  for this call. (The block under
  \<^verbatim>\<open>if False:\<close> is dead code.)
\<close>

definition exploration_schedule :: "real \<Rightarrow> clmab_state \<Rightarrow> clmab_state" where
  "exploration_schedule sim_time self =
     (if sim_time < exploration_time self then self\<lparr>exploration_rate := 1\<rparr>
      else (if \<not> is_exploration_over self then self\<lparr>is_exploration_over := True\<rparr> else self)
             \<lparr>exploration_rate := gvar_epsilon self\<rparr>)"

text \<open>
  Second block (\<^verbatim>\<open>## check and update current association\<close>, lines 380-387): a serving sector whose node
  is not among the replies to its beacon is appended to \<^verbatim>\<open>sector_lost_list\<close> with its
  node, and loses it.
\<close>

fun check_current_association ::
  "env \<Rightarrow> real \<Rightarrow> nat list \<Rightarrow> clmab_state \<Rightarrow> py_error + ((nat \<times> nat) list \<times> clmab_state)" where
  "check_current_association env sim_time [] st = Inr ([], st)"
| "check_current_association env sim_time (sector # rest) st =
     (case serving_node (sector_of st sector) of
        None \<Rightarrow> check_current_association env sim_time rest st
      | Some node \<Rightarrow>
          if VehicleNode node \<notin> set (broadcast env sector) then
            (case lost_vehicle st sector sim_time of
               Inl e \<Rightarrow> Inl e
             | Inr st' \<Rightarrow>
                 (case check_current_association env sim_time rest st' of
                    Inl e \<Rightarrow> Inl e
                  | Inr (lost, st'') \<Rightarrow> Inr ((sector, node) # lost, st'')))
          else check_current_association env sim_time rest st)"

text \<open>The test of that block on one sector: it serves a node that did not reply.\<close>

definition lost_connection :: "env \<Rightarrow> clmab_state \<Rightarrow> nat \<Rightarrow> bool" where
  "lost_connection env st sector =
     (case serving_node (sector_of st sector) of
        None \<Rightarrow> False
      | Some node \<Rightarrow> VehicleNode node \<notin> set (broadcast env sector))"

text \<open>
  Third block (\<^verbatim>\<open>## connection just lost, so update reward\<close>, lines 389-403). The collection of
  \<^verbatim>\<open>conn_info\<close> for the sector \<^verbatim>\<open>BS-1.0\<close> is diagnostic and left out.
\<close>

fun update_lost_rewards :: "(nat \<times> nat) list \<Rightarrow> clmab_state \<Rightarrow> py_error + clmab_state" where
  "update_lost_rewards [] self = Inr self"
| "update_lost_rewards ((sector, vehicle) # rest) self =
     (if serving_duration (sector_of self sector) = 0 then update_lost_rewards rest self
      else (let the_reward = serving_interference_free (sector_of self sector)
                               / serving_duration (sector_of self sector)
            in case update_reward self sector (MAB_context (sector_of self sector)) the_reward of
                 Inl e \<Rightarrow> Inl e
               | Inr self' \<Rightarrow> update_lost_rewards rest self'))"

text \<open>
  Fourth block (\<^verbatim>\<open>## check for new association\<close>, lines 405-455). \<open>detection_list\<close> is steps 1 to 3 for
  one sector (the signal quality of each entry is never read and is dropped);
  \<open>to_serve_exploit\<close> is the test of the exploitation branch; \<open>serve\<close> is the branch
  \<^verbatim>\<open>if to_serve:\<close> (\<^verbatim>\<open>associate_vehicle\<close>, then \<^verbatim>\<open>sector.MAB_context = this_context\<close>);
  \<open>new_association\<close> is the body of the loop for one sector.
\<close>

definition detection_list :: "env \<Rightarrow> clmab_state \<Rightarrow> nat \<Rightarrow> nat list" where
  "detection_list env st sector =
     concat (map (\<lambda>n. case n of
                         VehicleNode v \<Rightarrow>
                           if associated_sector (vehicle_of st v) = None \<and> unicast env v sector
                           then [v] else []
                       | BaseStationNode b \<Rightarrow> [])
                 (broadcast env sector))"

definition to_serve_exploit :: "real \<Rightarrow> real \<Rightarrow> bool" where
  "to_serve_exploit this_reward this_threshold =
     (if this_reward = 0 \<or> this_reward > this_threshold then True else False)"

definition serve :: "clmab_state \<Rightarrow> nat \<Rightarrow> nat \<Rightarrow> real \<Rightarrow> string \<Rightarrow> clmab_state" where
  "serve self sector vehicle_to_select sim_time this_context =
     (let st = associate_vehicle self sector vehicle_to_select sim_time
      in st\<lparr>sector_of := (sector_of st)
              (sector := (sector_of st sector)\<lparr>MAB_context := Some this_context\<rparr>)\<rparr>)"

definition new_association :: "env \<Rightarrow> real \<Rightarrow> nat \<Rightarrow> clmab_state \<Rightarrow> py_error + clmab_state" where
  "new_association env sim_time sector self =
     (if serving_node (sector_of self sector) \<noteq> None then Inr self
      else if is_backoff (sector_of self sector) sim_time then Inr self
      else (let dl = detection_list env self sector in
            if length dl \<noteq> 0 then
              (let vehicle_to_select = dl ! (random_choice env sector mod length dl);
                   this_context = get_current_context self sector
               in if random_random env sector < exploration_rate self then
                    Inr (serve self sector vehicle_to_select sim_time this_context)
                  else
                    (let this_reward = get_reward self sector (Some this_context) in
                     case get_threshold self sector of
                       Inl e \<Rightarrow> Inl e
                     | Inr this_threshold \<Rightarrow>
                         if to_serve_exploit this_reward this_threshold then
                           Inr (serve self sector vehicle_to_select sim_time this_context)
                         else
                           Inr (self\<lparr>sector_of := (sector_of self)
                                  (sector := backoff (sector_of self sector) sim_time this_threshold)\<rparr>)))
            else Inr self))"

fun check_new_association ::
  "env \<Rightarrow> real \<Rightarrow> nat list \<Rightarrow> clmab_state \<Rightarrow> py_error + clmab_state" where
  "check_new_association env sim_time [] self = Inr self"
| "check_new_association env sim_time (sector # rest) self =
     (case new_association env sim_time sector self of
        Inl e \<Rightarrow> Inl e
      | Inr self' \<Rightarrow> check_new_association env sim_time rest self')"

text \<open>
  \<^verbatim>\<open>CLMAB.execute(sim_time, duration, all_vehicles, all_sectors)\<close>; the method reads
  neither \<^verbatim>\<open>duration\<close> nor \<^verbatim>\<open>all_vehicles\<close>.
\<close>

definition execute :: "real \<Rightarrow> env \<Rightarrow> nat list \<Rightarrow> clmab_state \<Rightarrow> py_error + clmab_state" where
  "execute sim_time env all_sectors self =
     (case check_current_association env sim_time all_sectors (exploration_schedule sim_time self) of
        Inl e \<Rightarrow> Inl e
      | Inr (sector_lost_list, self2) \<Rightarrow>
          (case update_lost_rewards sector_lost_list self2 of
             Inl e \<Rightarrow> Inl e
           | Inr self3 \<Rightarrow> check_new_association env sim_time all_sectors self3))"

text \<open>
  \<^verbatim>\<open>MyScenario.do_mobility\<close> (lines 730-777): the statistics of the sectors for the elapsed \<^verbatim>\<open>duration\<close>, the
  call of \<^verbatim>\<open>execute\<close>, then the interference flag of every associated vehicle. (The
  statistics of the vehicles and the drawing are left out.)
\<close>

definition collect_sector_stats :: "real \<Rightarrow> nat \<Rightarrow> clmab_state \<Rightarrow> clmab_state" where
  "collect_sector_stats duration sector st =
     (case serving_node (sector_of st sector) of
        None \<Rightarrow> st
      | Some node \<Rightarrow>
          (let sec1 = (sector_of st sector)
                 \<lparr>total_duration := total_duration (sector_of st sector) + duration,
                  serving_duration := serving_duration (sector_of st sector) + duration\<rparr>;
               sec2 = (if \<not> has_interference (vehicle_of st node)
                       then sec1\<lparr>total_interference_free := total_interference_free sec1 + duration,
                                 serving_interference_free := serving_interference_free sec1 + duration\<rparr>
                       else sec1)
           in st\<lparr>sector_of := (sector_of st)(sector := sec2)\<rparr>))"

definition collect_stats :: "real \<Rightarrow> nat list \<Rightarrow> clmab_state \<Rightarrow> clmab_state" where
  "collect_stats duration all_sectors st = fold (collect_sector_stats duration) all_sectors st"

definition check_vehicle_interference :: "env \<Rightarrow> nat \<Rightarrow> clmab_state \<Rightarrow> clmab_state" where
  "check_vehicle_interference env vehicle st =
     (case associated_sector (vehicle_of st vehicle) of
        None \<Rightarrow> st
      | Some own \<Rightarrow>
          st\<lparr>vehicle_of := (vehicle_of st)
               (vehicle := (vehicle_of st vehicle)
                  \<lparr>has_interference :=
                     list_ex (\<lambda>n. case n of
                                    BaseStationNode beam \<Rightarrow>
                                      serving_node (sector_of st beam) \<noteq> None \<and> beam \<noteq> own \<and>
                                      probe env beam vehicle
                                  | VehicleNode v \<Rightarrow> False)
                             (vehicle_broadcast env vehicle)\<rparr>)\<rparr>)"

definition check_interference :: "env \<Rightarrow> nat list \<Rightarrow> clmab_state \<Rightarrow> clmab_state" where
  "check_interference env all_vehicles st = fold (check_vehicle_interference env) all_vehicles st"

definition do_mobility ::
  "real \<Rightarrow> real \<Rightarrow> env \<Rightarrow> nat list \<Rightarrow> nat list \<Rightarrow> clmab_state \<Rightarrow> py_error + clmab_state" where
  "do_mobility sim_time duration env all_vehicles all_sectors st =
     (case execute sim_time env all_sectors (collect_stats duration all_sectors st) of
        Inl e \<Rightarrow> Inl e
      | Inr st' \<Rightarrow> Inr (check_interference env all_vehicles st'))"

text \<open>
  The states of a run, with the simulated time of the latest call of \<^verbatim>\<open>execute\<close>: the
  constructors' state at time 0, then calls of \<^verbatim>\<open>execute\<close> at times that do not decrease
  (\<^verbatim>\<open>sim_time\<close> is the clock of the simulation), with any answers of the platform, and the
  two other loops of \<^verbatim>\<open>do_mobility\<close> between them.
\<close>

inductive reachable :: "real \<Rightarrow> clmab_state \<Rightarrow> bool" where
  reachable_init: "reachable 0 (CLMAB_init explore_first eps neighbours)"
| reachable_execute:
    "reachable t st \<Longrightarrow> t \<le> sim_time \<Longrightarrow> execute sim_time env all_sectors st = Inr st'
     \<Longrightarrow> reachable sim_time st'"
| reachable_stats: "reachable t st \<Longrightarrow> reachable t (collect_stats duration all_sectors st)"
| reachable_interference: "reachable t st \<Longrightarrow> reachable t (check_interference env all_vehicles st)"

text \<open>
  Mutual exclusion at time \<open>now\<close>: no serving sector has an active backoff timer, and a
  vehicle points to a sector exactly when that sector serves it.
\<close>

definition exclusion :: "real \<Rightarrow> clmab_state \<Rightarrow> bool" where
  "exclusion now st =
     ((\<forall>s. serving_node (sector_of st s) \<noteq> None \<longrightarrow> \<not> is_backoff (sector_of st s) now) \<and>
      (\<forall>s v. associated_sector (vehicle_of st v) = Some s \<longleftrightarrow>
             serving_node (sector_of st s) = Some v))"

text \<open>A sequence of calls of \<^verbatim>\<open>execute\<close>, each with its time and the platform's answers.\<close>

fun run :: "(real \<times> env) list \<Rightarrow> nat list \<Rightarrow> clmab_state \<Rightarrow> py_error + clmab_state" where
  "run [] all_sectors st = Inr st"
| "run ((sim_time, env) # epochs) all_sectors st =
     (case execute sim_time env all_sectors st of
        Inl e \<Rightarrow> Inl e
      | Inr st' \<Rightarrow> run epochs all_sectors st')"

section \<open>\<^verbatim>\<open>toy-example/main.py\<close>: base stations, vehicles and \<^verbatim>\<open>MACOLSolution\<close>\<close>

text \<open>
  \<^verbatim>\<open>Vehicle\<close> and \<^verbatim>\<open>BaseStation\<close> without their geometry and drawing. The names that
  clash with those of \<^verbatim>\<open>test-macol.py\<close> carry the prefix \<open>toy_\<close>. The attributes
  \<^verbatim>\<open>serving_duration\<close>, \<^verbatim>\<open>serving_inter_free\<close> and \<^verbatim>\<open>MAB_context\<close> of a base station do not
  exist before its first association; \<open>toy_MAB_context\<close> is \<open>None\<close> until then (reading it
  raises \<^verbatim>\<open>AttributeError\<close>) and the two counters are 0. (\<^verbatim>\<open>MACOL_context\<close>, which
  \<^verbatim>\<open>__init__\<close> sets and nothing reads, is left out.) Context keys are strings.
\<close>

record toy_vehicle =
  associated_bs :: "nat option"
  signal_count :: nat

record base_station =
  serving_vehicle :: "nat option"
  total_serving_duration :: real
  total_serving_count :: nat
  toy_serving_duration :: real
  serving_inter_free :: real
  toy_MAB_context :: "string option"
  MACOL_backoff :: "real \<times> real"

record macol_state = "string mab" +
  epsilon :: real
  is_full_exploration :: bool
  bs_of :: "nat \<Rightarrow> base_station"
  toy_vehicle_of :: "nat \<Rightarrow> toy_vehicle"

text \<open>
  What one call of \<^verbatim>\<open>execute\<close> gets from outside: \<open>can_reach env bs v\<close> is
  \<^verbatim>\<open>bs.can_reach(vehicle)\<close> at the positions of this tick, \<open>toy_choice env bs\<close> the index
  that \<^verbatim>\<open>random.choice\<close> draws (modulo the length of the list), \<open>toy_random env bs\<close> the
  value of \<^verbatim>\<open>random.random()\<close>.
\<close>

record toy_env =
  can_reach :: "nat \<Rightarrow> nat \<Rightarrow> bool"
  toy_choice :: "nat \<Rightarrow> nat"
  toy_random :: "nat \<Rightarrow> real"

definition BaseStation_init :: base_station where
  "BaseStation_init =
     \<lparr>serving_vehicle = None, total_serving_duration = 0, total_serving_count = 0,
      toy_serving_duration = 0, serving_inter_free = 0, toy_MAB_context = None,
      MACOL_backoff = (0, 0)\<rparr>"

definition Vehicle_init :: toy_vehicle where
  "Vehicle_init = \<lparr>associated_bs = None, signal_count = 0\<rparr>"

definition MACOLSolution_init :: macol_state where
  "MACOLSolution_init =
     \<lparr>exploration_rate = 1, exploration_time = 8000,
      q_value = (\<lambda>bs. []), q_count = (\<lambda>bs. []),
      epsilon = 5 / 100, is_full_exploration = True,
      bs_of = (\<lambda>bs. BaseStation_init), toy_vehicle_of = (\<lambda>vehicle. Vehicle_init)\<rparr>"

text \<open>\<^verbatim>\<open>Vehicle.is_connected\<close>, \<^verbatim>\<open>Vehicle.reset\<close> (its position and speed left out; lines
  45-73) and the methods of \<^verbatim>\<open>BaseStation\<close> (lines 123-153).\<close>

definition is_connected :: "toy_vehicle \<Rightarrow> bool" where
  "is_connected self = (associated_bs self \<noteq> None)"

definition reset :: "toy_vehicle \<Rightarrow> toy_vehicle" where
  "reset self = self\<lparr>associated_bs := None, signal_count := 0\<rparr>"

definition toy_associate_vehicle :: "macol_state \<Rightarrow> nat \<Rightarrow> nat \<Rightarrow> real \<Rightarrow> macol_state" where
  "toy_associate_vehicle st bs vehicle time =
     st\<lparr>bs_of := (bs_of st)
           (bs := (bs_of st bs)
              \<lparr>serving_vehicle := Some vehicle,
               toy_serving_duration := 0,
               serving_inter_free := 0\<rparr>),
        toy_vehicle_of := (toy_vehicle_of st)
           (vehicle := (toy_vehicle_of st vehicle)\<lparr>associated_bs := Some bs\<rparr>)\<rparr>"

definition toy_lost_vehicle :: "macol_state \<Rightarrow> nat \<Rightarrow> real \<Rightarrow> py_error + macol_state" where
  "toy_lost_vehicle st bs time =
     (case serving_vehicle (bs_of st bs) of
        None \<Rightarrow> Inl AttributeError
      | Some vehicle \<Rightarrow>
          Inr (st\<lparr>toy_vehicle_of := (toy_vehicle_of st)
                     (vehicle := (toy_vehicle_of st vehicle)\<lparr>associated_bs := None\<rparr>),
                  bs_of := (bs_of st)
                     (bs := (bs_of st bs)
                        \<lparr>total_serving_duration :=
                           total_serving_duration (bs_of st bs) + toy_serving_duration (bs_of st bs),
                         total_serving_count := total_serving_count (bs_of st bs) + 1,
                         serving_vehicle := None\<rparr>)\<rparr>))"

definition get_average_serving_duration :: "base_station \<Rightarrow> py_error + real" where
  "get_average_serving_duration self =
     (if total_serving_count self = 0 then Inl ZeroDivisionError
      else Inr (total_serving_duration self / real (total_serving_count self)))"

definition toy_backoff :: "base_station \<Rightarrow> real \<Rightarrow> real \<Rightarrow> base_station" where
  "toy_backoff self start_time duration = self\<lparr>MACOL_backoff := (start_time, duration)\<rparr>"

definition toy_is_backoff :: "base_station \<Rightarrow> real \<Rightarrow> bool" where
  "toy_is_backoff self check_time =
     (case MACOL_backoff self of
        (start_time, duration) \<Rightarrow> (if check_time - start_time < duration then True else False))"

text \<open>\<^verbatim>\<open>MACOLSolution.get_current_context(bs, bs_list)\<close> (lines 235-243): every other base station of
  \<^verbatim>\<open>bs_list\<close> is a neighbour.\<close>

definition toy_get_current_context :: "macol_state \<Rightarrow> nat \<Rightarrow> nat list \<Rightarrow> string" where
  "toy_get_current_context st bs bs_list =
     foldl (\<lambda>context neighbor.
              if neighbor = bs then context
              else context @ (if serving_vehicle (bs_of st neighbor) \<noteq> None then ''1'' else ''0''))
           ''['' bs_list
     @ '']''"

text \<open>\<^verbatim>\<open>MACOLSolution.execute(sim_time, vehicle_list, bs_list)\<close> (lines 274-338), block by
  block: the exploration rate (lines 281-285), the lost connections (lines 287-293), their
  rewards (lines 295-298) and the new associations (lines 300-338).\<close>

definition toy_exploration_schedule :: "real \<Rightarrow> macol_state \<Rightarrow> macol_state" where
  "toy_exploration_schedule sim_time self =
     (if is_full_exploration self then
        (if sim_time > exploration_time self
         then self\<lparr>is_full_exploration := False, exploration_rate := epsilon self\<rparr>
         else self)
      else self)"

fun toy_check_current_association ::
  "toy_env \<Rightarrow> real \<Rightarrow> nat list \<Rightarrow> macol_state \<Rightarrow> py_error + ((nat \<times> nat) list \<times> macol_state)" where
  "toy_check_current_association env sim_time [] st = Inr ([], st)"
| "toy_check_current_association env sim_time (bs # rest) st =
     (case serving_vehicle (bs_of st bs) of
        None \<Rightarrow> toy_check_current_association env sim_time rest st
      | Some vehicle \<Rightarrow>
          if \<not> can_reach env bs vehicle then
            (case toy_lost_vehicle st bs sim_time of
               Inl e \<Rightarrow> Inl e
             | Inr st' \<Rightarrow>
                 (case toy_check_current_association env sim_time rest st' of
                    Inl e \<Rightarrow> Inl e
                  | Inr (lost, st'') \<Rightarrow> Inr ((bs, vehicle) # lost, st'')))
          else toy_check_current_association env sim_time rest st)"

definition toy_lost_connection :: "toy_env \<Rightarrow> macol_state \<Rightarrow> nat \<Rightarrow> bool" where
  "toy_lost_connection env st bs =
     (case serving_vehicle (bs_of st bs) of
        None \<Rightarrow> False
      | Some vehicle \<Rightarrow> \<not> can_reach env bs vehicle)"

fun toy_update_lost_rewards :: "(nat \<times> nat) list \<Rightarrow> macol_state \<Rightarrow> py_error + macol_state" where
  "toy_update_lost_rewards [] self = Inr self"
| "toy_update_lost_rewards ((bs, vehicle) # rest) self =
     (let the_reward = serving_inter_free (bs_of self bs)
      in case toy_MAB_context (bs_of self bs) of
           None \<Rightarrow> Inl AttributeError
         | Some context \<Rightarrow>
             (case update_reward self bs context the_reward of
                Inl e \<Rightarrow> Inl e
              | Inr self' \<Rightarrow> toy_update_lost_rewards rest self'))"

definition reachable_vehicles :: "toy_env \<Rightarrow> macol_state \<Rightarrow> nat \<Rightarrow> nat list \<Rightarrow> nat list" where
  "reachable_vehicles env st bs vehicle_list =
     filter (\<lambda>vehicle. \<not> is_connected (toy_vehicle_of st vehicle) \<and> can_reach env bs vehicle)
            vehicle_list"

definition toy_serve :: "macol_state \<Rightarrow> nat \<Rightarrow> nat \<Rightarrow> real \<Rightarrow> string \<Rightarrow> macol_state" where
  "toy_serve self bs selected_vehicle sim_time this_context =
     (let st = toy_associate_vehicle self bs selected_vehicle sim_time
      in st\<lparr>bs_of := (bs_of st)(bs := (bs_of st bs)\<lparr>toy_MAB_context := Some this_context\<rparr>)\<rparr>)"

definition toy_new_association ::
  "toy_env \<Rightarrow> real \<Rightarrow> nat list \<Rightarrow> nat list \<Rightarrow> nat \<Rightarrow> macol_state \<Rightarrow> py_error + macol_state" where
  "toy_new_association env sim_time vehicle_list bs_list bs self =
     (if serving_vehicle (bs_of self bs) \<noteq> None then Inr self
      else if toy_is_backoff (bs_of self bs) sim_time then Inr self
      else (let rv = reachable_vehicles env self bs vehicle_list in
            if length rv \<noteq> 0 then
              (let selected_vehicle = rv ! (toy_choice env bs mod length rv);
                   this_context = toy_get_current_context self bs bs_list;
                   to_serve =
                     (if toy_random env bs < exploration_rate self then True
                      else (let this_reward = get_reward self bs this_context;
                                this_threshold = toy_get_threshold self bs
                            in to_serve_exploit this_reward this_threshold))
               in if to_serve then Inr (toy_serve self bs selected_vehicle sim_time this_context)
                  else
                    (case get_average_serving_duration (bs_of self bs) of
                       Inl e \<Rightarrow> Inl e
                     | Inr duration \<Rightarrow>
                         Inr (self\<lparr>bs_of := (bs_of self)
                                (bs := toy_backoff (bs_of self bs) sim_time duration)\<rparr>)))
            else Inr self))"

fun toy_check_new_association ::
  "toy_env \<Rightarrow> real \<Rightarrow> nat list \<Rightarrow> nat list \<Rightarrow> nat list \<Rightarrow> macol_state \<Rightarrow> py_error + macol_state" where
  "toy_check_new_association env sim_time vehicle_list bs_list [] self = Inr self"
| "toy_check_new_association env sim_time vehicle_list bs_list (bs # rest) self =
     (case toy_new_association env sim_time vehicle_list bs_list bs self of
        Inl e \<Rightarrow> Inl e
      | Inr self' \<Rightarrow> toy_check_new_association env sim_time vehicle_list bs_list rest self')"

definition toy_execute ::
  "real \<Rightarrow> toy_env \<Rightarrow> nat list \<Rightarrow> nat list \<Rightarrow> macol_state \<Rightarrow> py_error + macol_state" where
  "toy_execute sim_time env vehicle_list bs_list self =
     (case toy_check_current_association env sim_time bs_list (toy_exploration_schedule sim_time self) of
        Inl e \<Rightarrow> Inl e
      | Inr (bs_lost_list, self2) \<Rightarrow>
          (case toy_update_lost_rewards bs_lost_list self2 of
             Inl e \<Rightarrow> Inl e
           | Inr self3 \<Rightarrow> toy_check_new_association env sim_time vehicle_list bs_list bs_list self3))"

text \<open>
  The rest of one turn of the simulation loop (lines 393-415): the signal count of every connected
  vehicle, the two duration counters of every serving base station, and the vehicles
  that leave the screen and are reset (\<open>gone\<close> lists them; \<^verbatim>\<open>Vehicle.update\<close> decides it from
  the position, which is not modelled).
\<close>

definition count_signals :: "toy_env \<Rightarrow> nat list \<Rightarrow> nat \<Rightarrow> macol_state \<Rightarrow> macol_state" where
  "count_signals env bs_list vehicle st =
     (if \<not> is_connected (toy_vehicle_of st vehicle) then st
      else st\<lparr>toy_vehicle_of := (toy_vehicle_of st)
                (vehicle := (toy_vehicle_of st vehicle)
                   \<lparr>signal_count :=
                      length (filter (\<lambda>bs. serving_vehicle (bs_of st bs) \<noteq> None \<and> can_reach env bs vehicle)
                                     bs_list)\<rparr>)\<rparr>)"

definition count_duration :: "nat \<Rightarrow> macol_state \<Rightarrow> macol_state" where
  "count_duration bs st =
     (case serving_vehicle (bs_of st bs) of
        None \<Rightarrow> st
      | Some vehicle \<Rightarrow>
          (let b1 = (bs_of st bs)\<lparr>toy_serving_duration := toy_serving_duration (bs_of st bs) + 1\<rparr>;
               b2 = (if signal_count (toy_vehicle_of st vehicle) = 1
                     then b1\<lparr>serving_inter_free := serving_inter_free b1 + 1\<rparr> else b1)
           in st\<lparr>bs_of := (bs_of st)(bs := b2)\<rparr>))"

definition reset_vehicle :: "nat \<Rightarrow> macol_state \<Rightarrow> macol_state" where
  "reset_vehicle vehicle st =
     st\<lparr>toy_vehicle_of := (toy_vehicle_of st)(vehicle := reset (toy_vehicle_of st vehicle))\<rparr>"

definition after_execute :: "toy_env \<Rightarrow> nat list \<Rightarrow> nat list \<Rightarrow> nat list \<Rightarrow> macol_state \<Rightarrow> macol_state" where
  "after_execute env vehicle_list bs_list gone st =
     fold reset_vehicle gone
       (fold count_duration bs_list
          (fold (count_signals env bs_list) vehicle_list st))"

text \<open>
  The states of a run of the toy, with the tick of the latest call of \<^verbatim>\<open>execute\<close>:
  the constructors' state, then calls of \<^verbatim>\<open>execute\<close> that return, at ticks that do
  not decrease, each followed or not by the rest of the turn.
\<close>

inductive toy_reachable :: "real \<Rightarrow> macol_state \<Rightarrow> bool" where
  toy_reachable_init: "toy_reachable 0 MACOLSolution_init"
| toy_reachable_execute:
    "toy_reachable t st \<Longrightarrow> t \<le> sim_time \<Longrightarrow>
     toy_execute sim_time env vehicle_list bs_list st = Inr st' \<Longrightarrow> toy_reachable sim_time st'"
| toy_reachable_after:
    "toy_reachable t st \<Longrightarrow> toy_reachable t (after_execute env vehicle_list bs_list gone st)"

text \<open>
  What the toy's \<^verbatim>\<open>execute\<close> relies on and keeps: the two tables agree, a serving base
  station has its \<^verbatim>\<open>MAB_context\<close>, and a base station with a context in its table has
  completed a connection.
\<close>

definition toy_inv :: "macol_state \<Rightarrow> bool" where
  "toy_inv st =
     (tables_agree st \<and>
      (\<forall>b. (serving_vehicle (bs_of st b) \<noteq> None \<longrightarrow> toy_MAB_context (bs_of st b) \<noteq> None) \<and>
           (q_value st b \<noteq> [] \<longrightarrow> total_serving_count (bs_of st b) \<noteq> 0)))"

text \<open>
  Mutual exclusion in the toy at tick \<open>now\<close>: no serving base station has an active
  backoff timer, and a vehicle points only to a base station that serves it. (A vehicle that
  is reset forgets its base station before the base station drops it, so the converse
  does not hold.)
\<close>

definition toy_exclusion :: "real \<Rightarrow> macol_state \<Rightarrow> bool" where
  "toy_exclusion now st =
     ((\<forall>b. serving_vehicle (bs_of st b) \<noteq> None \<longrightarrow> \<not> toy_is_backoff (bs_of st b) now) \<and>
      (\<forall>b v. associated_bs (toy_vehicle_of st v) = Some b \<longrightarrow>
             serving_vehicle (bs_of st b) = Some v))"

fun toy_run ::
  "(real \<times> toy_env) list \<Rightarrow> nat list \<Rightarrow> nat list \<Rightarrow> macol_state \<Rightarrow> py_error + macol_state" where
  "toy_run [] vehicle_list bs_list st = Inr st"
| "toy_run ((sim_time, env) # epochs) vehicle_list bs_list st =
     (case toy_execute sim_time env vehicle_list bs_list st of
        Inl e \<Rightarrow> Inl e
      | Inr st' \<Rightarrow> toy_run epochs vehicle_list bs_list st')"

section \<open>Concrete scenarios\<close>

text \<open>
  Answers of the platform for the worked examples: \<open>env_of replies draw\<close> lets every
  unicast through, makes \<^verbatim>\<open>random.choice\<close> take the first entry and
  \<^verbatim>\<open>random.random()\<close> return \<open>draw\<close>; \<open>toy_env_of reach draw\<close> is its counterpart for the toy.
\<close>

definition env_of :: "(nat \<Rightarrow> node list) \<Rightarrow> real \<Rightarrow> env" where
  "env_of replies draw =
     \<lparr>broadcast = replies, unicast = (\<lambda>v s. True), random_choice = (\<lambda>s. 0),
      random_random = (\<lambda>s. draw), vehicle_broadcast = (\<lambda>v. []), probe = (\<lambda>b v. False)\<rparr>"

definition toy_env_of :: "(nat \<Rightarrow> nat \<Rightarrow> bool) \<Rightarrow> real \<Rightarrow> toy_env" where
  "toy_env_of reach draw = \<lparr>can_reach = reach, toy_choice = (\<lambda>b. 0), toy_random = (\<lambda>b. draw)\<rparr>"

text \<open>
  A sector without neighbours past its exploration window, whose table holds the context
  \<^verbatim>\<open>[]\<close> with mean reward 1/2 from one connection; and a base station of the toy past its
  exploration window, with two completed connections of total duration 10 whose
  interference-free durations 2 and 4 were recorded for the context \<^verbatim>\<open>[]\<close>.
\<close>

definition learned_state :: clmab_state where
  "learned_state =
     (CLMAB_init 120 (5 / 100) (\<lambda>s. []))
       \<lparr>exploration_rate := 5 / 100,
        q_value := (\<lambda>s. [(Some ''[]'', 1 / 2)]),
        q_count := (\<lambda>s. [(Some ''[]'', 1)]),
        is_exploration_over := True\<rparr>"

definition toy_learned_state :: macol_state where
  "toy_learned_state =
     MACOLSolution_init
       \<lparr>exploration_rate := 5 / 100,
        q_value := (\<lambda>b. [(''[]'', 3)]),
        q_count := (\<lambda>b. [(''[]'', 2)]),
        is_full_exploration := False,
        bs_of := (\<lambda>b. BaseStation_init
                   \<lparr>total_serving_duration := 10, total_serving_count := 2,
                    toy_serving_duration := 6, serving_inter_free := 4,
                    toy_MAB_context := Some ''[]''\<rparr>)\<rparr>"

text \<open>
  A run of \<^verbatim>\<open>test-macol.py\<close> with one sector and \<^verbatim>\<open>explore-first = 120\<close>: at time 1 the
  sector finds vehicle 0 and serves it (exploration); 30 seconds of service without
  interference are counted; at time 31 the vehicle is out of reach; at time 200 the sector
  finds vehicle 1 and \<^verbatim>\<open>random.random()\<close> returns 0.9.
\<close>

definition example_run :: "py_error + clmab_state" where
  "example_run =
     (case execute 1 (env_of (\<lambda>s. [VehicleNode 0]) 0) [0] (CLMAB_init 120 (5 / 100) (\<lambda>s. [])) of
        Inl e \<Rightarrow> Inl e
      | Inr s1 \<Rightarrow>
          (case execute 31 (env_of (\<lambda>s. []) 0) [0] (collect_stats 30 [0] s1) of
             Inl e \<Rightarrow> Inl e
           | Inr s2 \<Rightarrow> execute 200 (env_of (\<lambda>s. [VehicleNode 1]) (9 / 10)) [0] s2))"

text \<open>
  The quantity of claim C1 on a sector of \<^verbatim>\<open>test-macol.py\<close>: the timer's duration is the
  total connected duration divided by the number of connections the sector made.
\<close>

definition armed_with_average :: "my_sector \<Rightarrow> bool" where
  "armed_with_average sec =
     (snd (MAB_backoff sec) = total_duration sec / real (period_conn_count sec))"

definition sector_after :: "py_error + clmab_state \<Rightarrow> nat \<Rightarrow> py_error + my_sector" where
  "sector_after r s = (case r of Inl e \<Rightarrow> Inl e | Inr st \<Rightarrow> Inr (sector_of st s))"

text \<open>
  A sector that has served vehicle 0 for 30 seconds without interference since it took it
  in context \<^verbatim>\<open>[]\<close>; a base station of the toy one tick after it took vehicle 0; and a run of
  the toy with one base station: it takes vehicle 0 at tick 1, keeps it at tick 2 and has
  lost it at tick 3, each tick followed by the rest of the turn.
\<close>

definition serving_state :: clmab_state where
  "serving_state = collect_stats 30 [0] (serve (CLMAB_init 120 (5 / 100) (\<lambda>s. [])) 0 0 1 ''[]'')"

definition toy_serving_state :: macol_state where
  "toy_serving_state =
     after_execute (toy_env_of (\<lambda>b v. True) 0) [0] [0] [] (toy_serve MACOLSolution_init 0 0 1 ''[]'')"

definition toy_example_run :: "py_error + macol_state" where
  "toy_example_run =
     (case toy_execute 1 (toy_env_of (\<lambda>b v. True) 0) [0] [0] MACOLSolution_init of
        Inl e \<Rightarrow> Inl e
      | Inr s1 \<Rightarrow>
          (case toy_execute 2 (toy_env_of (\<lambda>b v. True) 0) [0] [0]
                  (after_execute (toy_env_of (\<lambda>b v. True) 0) [0] [0] [] s1) of
             Inl e \<Rightarrow> Inl e
           | Inr s2 \<Rightarrow>
               toy_execute 3 (toy_env_of (\<lambda>b v. False) 0) [0] [0]
                 (after_execute (toy_env_of (\<lambda>b v. True) 0) [0] [0] [] s2)))"

definition tables_after ::
  "py_error + ('k, 'a) mab_scheme \<Rightarrow> nat \<Rightarrow> py_error + (('k \<times> real) list \<times> ('k \<times> nat) list)" where
  "tables_after r a = (case r of Inl e \<Rightarrow> Inl e | Inr st \<Rightarrow> Inr (q_value st a, q_count st a))"

definition bs_after :: "py_error + macol_state \<Rightarrow> nat \<Rightarrow> py_error + base_station" where
  "bs_after r b = (case r of Inl e \<Rightarrow> Inl e | Inr st \<Rightarrow> Inr (bs_of st b))"

text \<open>The state after \<open>toy_example_run\<close>.\<close>

definition toy_example_state :: macol_state where
  "toy_example_state = (case toy_example_run of Inr st \<Rightarrow> st | Inl e \<Rightarrow> MACOLSolution_init)"

section \<open>Properties of the bandit tables\<close>

lemma update_reward_fresh:
  "map_of (q_value self s) c = None \<Longrightarrow>
   update_reward self s c r =
     Inr (self\<lparr>q_value := (q_value self)(s := AList.update c r (q_value self s)),
               q_count := (q_count self)(s := AList.update c 1 (q_count self s))\<rparr>)"
  by (simp add: update_reward_def Let_def AList.update_conv')

lemma update_reward_seen:
  "map_of (q_value self s) c = Some qv \<Longrightarrow> map_of (q_count self s) c = Some qc \<Longrightarrow>
   update_reward self s c r =
     Inr (self\<lparr>q_count := (q_count self)(s := AList.update c (qc + 1) (q_count self s)),
               q_value := (q_value self)
                 (s := AList.update c ((qv * real qc + r) / real (qc + 1)) (q_value self s))\<rparr>)"
  by (simp add: update_reward_def Let_def AList.update_conv')

lemma update_reward_total:
  assumes "tables_agree self"
  shows "\<exists>self'. update_reward self s c r = Inr self'"
proof (cases "map_of (q_value self s) c")
  case None
  then show ?thesis by (simp add: update_reward_fresh)
next
  case (Some qv)
  with assms obtain qc where "map_of (q_count self s) c = Some qc"
    by (auto simp: tables_agree_def)
  with Some show ?thesis by (simp add: update_reward_seen)
qed

lemma update_reward_tables:
  assumes "update_reward self s c r = Inr self'"
  shows "\<exists>v n. q_value self' = (q_value self)(s := AList.update c v (q_value self s)) \<and>
               q_count self' = (q_count self)(s := AList.update c n (q_count self s))"
  using assms
  by (auto simp: update_reward_def Let_def AList.update_conv' split: if_splits option.splits)

lemma update_reward_agree:
  assumes "tables_agree self" "update_reward self s c r = Inr self'"
  shows "tables_agree self'"
proof -
  from update_reward_tables[OF assms(2)] obtain v n where
    "q_value self' = (q_value self)(s := AList.update c v (q_value self s))"
    "q_count self' = (q_count self)(s := AList.update c n (q_count self s))" by blast
  with assms(1) show ?thesis
    by (auto simp: tables_agree_def AList.update_conv')
qed




lemma sum_contexts_ok:
  "set ks \<subseteq> fst ` set d \<Longrightarrow>
   sum_contexts d ks acc = Inr (acc + sum_list (map (\<lambda>k. the (map_of d k)) ks))"
proof (induction ks arbitrary: acc)
  case Nil
  then show ?case by simp
next
  case (Cons k ks)
  then have "k \<in> fst ` set d" by simp
  then obtain v where "map_of d k = Some v"
    by (metis map_of_eq_None_iff not_Some_eq)
  with Cons show ?case by simp
qed

lemma get_threshold_loop:
  "get_threshold self s =
     Inr (if q_value self s = [] then 0
          else sum_list (map (\<lambda>k. the (map_of (q_value self s) k)) (map fst (q_value self s)))
               / real (length (q_value self s)))"
  by (simp add: get_threshold_def sum_contexts_ok)




section \<open>Properties of the context encoders\<close>

lemma foldl_append_bits:
  "foldl (\<lambda>context n. context @ f n) acc ns = acc @ concat (map f ns)"
  by (induction ns arbitrary: acc) simp_all

lemma concat_singletons: "concat (map (\<lambda>n. [g n]) ns) = map g ns"
  by (induction ns) simp_all

lemma get_current_context_eq:
  "get_current_context st s =
     ''['' @ map (\<lambda>n. if serving_node (sector_of st n) \<noteq> None then CHR ''1'' else CHR ''0'')
                (neighbour_list (sector_of st s)) @ '']''"
proof -
  have "(\<lambda>context neighbour.
            context @ (if serving_node (sector_of st neighbour) \<noteq> None then ''1'' else ''0''))
        = (\<lambda>context n. context @ [if serving_node (sector_of st n) \<noteq> None then CHR ''1'' else CHR ''0''])"
    by (intro ext) simp
  then show ?thesis
    unfolding get_current_context_def
    by (simp only: foldl_append_bits concat_singletons append_assoc)
qed

lemma foldl_skip_self:
  "foldl (\<lambda>context n. if n = b then context else context @ f n) acc ns
   = acc @ concat (map f (filter (\<lambda>n. n \<noteq> b) ns))"
  by (induction ns arbitrary: acc) simp_all

lemma toy_get_current_context_eq:
  "toy_get_current_context st b bs_list =
     ''['' @ map (\<lambda>n. if serving_vehicle (bs_of st n) \<noteq> None then CHR ''1'' else CHR ''0'')
                (filter (\<lambda>n. n \<noteq> b) bs_list) @ '']''"
proof -
  have "(\<lambda>context neighbor.
              if neighbor = b then context
              else context @ (if serving_vehicle (bs_of st neighbor) \<noteq> None then ''1'' else ''0''))
        = (\<lambda>context n. if n = b then context else
              context @ [if serving_vehicle (bs_of st n) \<noteq> None then CHR ''1'' else CHR ''0''])"
    by (intro ext) simp
  then show ?thesis
    unfolding toy_get_current_context_def
    by (simp only: foldl_skip_self concat_singletons append_assoc)
qed

section \<open>What each block of \<^verbatim>\<open>execute\<close> leaves unchanged\<close>

lemma update_reward_frame:
  fixes self :: clmab_state
  assumes "update_reward self s c r = Inr self'"
  shows "exploration_rate self' = exploration_rate self"
    and "exploration_time self' = exploration_time self"
    and "is_exploration_over self' = is_exploration_over self"
    and "gvar_epsilon self' = gvar_epsilon self"
    and "sector_of self' = sector_of self"
    and "vehicle_of self' = vehicle_of self"
  using assms
  by (auto simp: update_reward_def Let_def split: if_splits option.splits)

lemma lost_vehicle_Some:
  "serving_node (sector_of st s) = Some v \<Longrightarrow>
   lost_vehicle st s t =
     Inr (st\<lparr>vehicle_of := (vehicle_of st)(v := (vehicle_of st v)\<lparr>associated_sector := None\<rparr>),
             sector_of := (sector_of st)(s := (sector_of st s)\<lparr>serving_node := None\<rparr>)\<rparr>)"
  by (simp add: lost_vehicle_def)

lemma check_current_association_frame:
  "check_current_association env t secs st = Inr (lost, st') \<Longrightarrow>
   exploration_rate st' = exploration_rate st \<and> exploration_time st' = exploration_time st \<and>
   is_exploration_over st' = is_exploration_over st \<and> gvar_epsilon st' = gvar_epsilon st \<and>
   q_value st' = q_value st \<and> q_count st' = q_count st"
proof (induction secs arbitrary: st lost)
  case Nil
  then show ?case by simp
next
  case (Cons s secs)
  show ?case
  proof (cases "serving_node (sector_of st s)")
    case None
    with Cons show ?thesis by simp
  next
    case (Some v)
    show ?thesis
    proof (cases "VehicleNode v \<notin> set (broadcast env s)")
      case True
      let ?st1 = "st\<lparr>vehicle_of := (vehicle_of st)(v := (vehicle_of st v)\<lparr>associated_sector := None\<rparr>),
             sector_of := (sector_of st)(s := (sector_of st s)\<lparr>serving_node := None\<rparr>)\<rparr>"
      from Cons.prems Some True obtain lost' where
        "check_current_association env t secs ?st1 = Inr (lost', st')"
        by (auto simp: lost_vehicle_Some split: sum.splits)
      from Cons.IH[OF this] show ?thesis by simp
    next
      case False
      with Cons Some show ?thesis by simp
    qed
  qed
qed

lemma update_lost_rewards_frame:
  "update_lost_rewards lost st = Inr st' \<Longrightarrow>
   exploration_rate st' = exploration_rate st \<and> exploration_time st' = exploration_time st \<and>
   is_exploration_over st' = is_exploration_over st \<and> gvar_epsilon st' = gvar_epsilon st \<and>
   sector_of st' = sector_of st \<and> vehicle_of st' = vehicle_of st"
proof (induction lost arbitrary: st)
  case Nil
  then show ?case by simp
next
  case (Cons p lost)
  obtain s v where p: "p = (s, v)" by (cases p) auto
  show ?case
  proof (cases "serving_duration (sector_of st s) = 0")
    case True
    with Cons p show ?thesis by simp
  next
    case False
    with Cons.prems p obtain st1 where
      u: "update_reward st s (MAB_context (sector_of st s))
            (serving_interference_free (sector_of st s) / serving_duration (sector_of st s)) = Inr st1"
      and r: "update_lost_rewards lost st1 = Inr st'"
      by (auto simp: Let_def split: sum.splits)
    from Cons.IH[OF r] update_reward_frame[OF u] show ?thesis by simp
  qed
qed

lemma get_threshold_Inr: "\<exists>th. get_threshold self s = Inr th"
  by (simp add: get_threshold_loop)

lemma new_association_frame:
  "new_association env t s st = Inr st' \<Longrightarrow>
   exploration_rate st' = exploration_rate st \<and> exploration_time st' = exploration_time st \<and>
   is_exploration_over st' = is_exploration_over st \<and> gvar_epsilon st' = gvar_epsilon st \<and>
   q_value st' = q_value st \<and> q_count st' = q_count st"
  by (auto simp: new_association_def Let_def serve_def associate_vehicle_def
      split: if_splits sum.splits)

lemma check_new_association_frame:
  "check_new_association env t secs st = Inr st' \<Longrightarrow>
   exploration_rate st' = exploration_rate st \<and> exploration_time st' = exploration_time st \<and>
   is_exploration_over st' = is_exploration_over st \<and> gvar_epsilon st' = gvar_epsilon st \<and>
   q_value st' = q_value st \<and> q_count st' = q_count st"
proof (induction secs arbitrary: st)
  case Nil
  then show ?case by simp
next
  case (Cons s secs)
  then obtain st1 where n: "new_association env t s st = Inr st1"
    and r: "check_new_association env t secs st1 = Inr st'"
    by (auto split: sum.splits)
  from Cons.IH[OF r] new_association_frame[OF n] show ?case by simp
qed

lemma execute_schedule:
  assumes "execute t env secs st = Inr st'"
  shows "exploration_rate st' = exploration_rate (exploration_schedule t st)"
    and "exploration_time st' = exploration_time st"
    and "is_exploration_over st' = is_exploration_over (exploration_schedule t st)"
    and "gvar_epsilon st' = gvar_epsilon st"
proof -
  from assms obtain lost st2 st3 where
    a: "check_current_association env t secs (exploration_schedule t st) = Inr (lost, st2)"
    and b: "update_lost_rewards lost st2 = Inr st3"
    and c: "check_new_association env t secs st3 = Inr st'"
    by (auto simp: execute_def split: sum.splits)
  from check_current_association_frame[OF a] update_lost_rewards_frame[OF b]
    check_new_association_frame[OF c]
  show "exploration_rate st' = exploration_rate (exploration_schedule t st)"
    and "exploration_time st' = exploration_time st"
    and "is_exploration_over st' = is_exploration_over (exploration_schedule t st)"
    and "gvar_epsilon st' = gvar_epsilon st"
    by (simp_all add: exploration_schedule_def)
qed

lemma toy_update_reward_frame:
  fixes self :: macol_state
  assumes "update_reward self s c r = Inr self'"
  shows "exploration_rate self' = exploration_rate self"
    and "exploration_time self' = exploration_time self"
    and "is_full_exploration self' = is_full_exploration self"
    and "epsilon self' = epsilon self"
    and "bs_of self' = bs_of self"
    and "toy_vehicle_of self' = toy_vehicle_of self"
  using assms
  by (auto simp: update_reward_def Let_def split: if_splits option.splits)

lemma toy_lost_vehicle_Some:
  "serving_vehicle (bs_of st b) = Some v \<Longrightarrow>
   toy_lost_vehicle st b t =
     Inr (st\<lparr>toy_vehicle_of := (toy_vehicle_of st)
                     (v := (toy_vehicle_of st v)\<lparr>associated_bs := None\<rparr>),
                  bs_of := (bs_of st)
                     (b := (bs_of st b)
                        \<lparr>total_serving_duration :=
                           total_serving_duration (bs_of st b) + toy_serving_duration (bs_of st b),
                         total_serving_count := total_serving_count (bs_of st b) + 1,
                         serving_vehicle := None\<rparr>)\<rparr>)"
  by (simp add: toy_lost_vehicle_def)

lemma toy_check_current_association_frame:
  "toy_check_current_association env t bl st = Inr (lost, st') \<Longrightarrow>
   exploration_rate st' = exploration_rate st \<and> exploration_time st' = exploration_time st \<and>
   is_full_exploration st' = is_full_exploration st \<and> epsilon st' = epsilon st \<and>
   q_value st' = q_value st \<and> q_count st' = q_count st"
proof (induction bl arbitrary: st lost)
  case Nil
  then show ?case by simp
next
  case (Cons b bl)
  show ?case
  proof (cases "serving_vehicle (bs_of st b)")
    case None
    with Cons show ?thesis by simp
  next
    case (Some v)
    show ?thesis
    proof (cases "can_reach env b v")
      case False
      from Cons.prems Some False obtain lost' st1 where
        l: "toy_lost_vehicle st b t = Inr st1"
        and r: "toy_check_current_association env t bl st1 = Inr (lost', st')"
        by (auto split: sum.splits)
      from l Some have "exploration_rate st1 = exploration_rate st \<and> exploration_time st1 = exploration_time st \<and>
        is_full_exploration st1 = is_full_exploration st \<and> epsilon st1 = epsilon st \<and>
        q_value st1 = q_value st \<and> q_count st1 = q_count st"
        by (auto simp: toy_lost_vehicle_Some)
      with Cons.IH[OF r] show ?thesis by simp
    next
      case True
      with Cons Some show ?thesis by simp
    qed
  qed
qed

lemma toy_update_lost_rewards_frame:
  "toy_update_lost_rewards lost st = Inr st' \<Longrightarrow>
   exploration_rate st' = exploration_rate st \<and> exploration_time st' = exploration_time st \<and>
   is_full_exploration st' = is_full_exploration st \<and> epsilon st' = epsilon st \<and>
   bs_of st' = bs_of st \<and> toy_vehicle_of st' = toy_vehicle_of st"
proof (induction lost arbitrary: st)
  case Nil
  then show ?case by simp
next
  case (Cons p lost)
  obtain b v where p: "p = (b, v)" by (cases p) auto
  from Cons.prems p obtain c st1 where
    u: "update_reward st b c (serving_inter_free (bs_of st b)) = Inr st1"
    and r: "toy_update_lost_rewards lost st1 = Inr st'"
    by (auto simp: Let_def split: sum.splits option.splits)
  from Cons.IH[OF r] toy_update_reward_frame[OF u] show ?case by simp
qed

lemma toy_new_association_frame:
  "toy_new_association env t vl bl b st = Inr st' \<Longrightarrow>
   exploration_rate st' = exploration_rate st \<and> exploration_time st' = exploration_time st \<and>
   is_full_exploration st' = is_full_exploration st \<and> epsilon st' = epsilon st \<and>
   q_value st' = q_value st \<and> q_count st' = q_count st"
  by (auto simp: toy_new_association_def Let_def toy_serve_def toy_associate_vehicle_def
      split: if_splits sum.splits)

lemma toy_check_new_association_frame:
  "toy_check_new_association env t vl bl bs st = Inr st' \<Longrightarrow>
   exploration_rate st' = exploration_rate st \<and> exploration_time st' = exploration_time st \<and>
   is_full_exploration st' = is_full_exploration st \<and> epsilon st' = epsilon st \<and>
   q_value st' = q_value st \<and> q_count st' = q_count st"
proof (induction bs arbitrary: st)
  case Nil
  then show ?case by simp
next
  case (Cons b bs)
  then obtain st1 where n: "toy_new_association env t vl bl b st = Inr st1"
    and r: "toy_check_new_association env t vl bl bs st1 = Inr st'"
    by (auto split: sum.splits)
  from Cons.IH[OF r] toy_new_association_frame[OF n] show ?case by simp
qed

lemma toy_execute_schedule:
  assumes "toy_execute t env vl bl st = Inr st'"
  shows "exploration_rate st' = exploration_rate (toy_exploration_schedule t st)"
    and "exploration_time st' = exploration_time st"
    and "is_full_exploration st' = is_full_exploration (toy_exploration_schedule t st)"
    and "epsilon st' = epsilon st"
proof -
  from assms obtain lost st2 st3 where
    a: "toy_check_current_association env t bl (toy_exploration_schedule t st) = Inr (lost, st2)"
    and b: "toy_update_lost_rewards lost st2 = Inr st3"
    and c: "toy_check_new_association env t vl bl bl st3 = Inr st'"
    by (auto simp: toy_execute_def split: sum.splits)
  from toy_check_current_association_frame[OF a] toy_update_lost_rewards_frame[OF b]
    toy_check_new_association_frame[OF c]
  show "exploration_rate st' = exploration_rate (toy_exploration_schedule t st)"
    and "exploration_time st' = exploration_time st"
    and "is_full_exploration st' = is_full_exploration (toy_exploration_schedule t st)"
    and "epsilon st' = epsilon st"
    by (simp_all add: toy_exploration_schedule_def)
qed

lemma toy_run_after_window:
  "toy_run epochs vl bl st = Inr st' \<Longrightarrow> \<not> is_full_exploration st \<Longrightarrow>
   \<not> is_full_exploration st' \<and> exploration_rate st' = exploration_rate st"
proof (induction epochs arbitrary: st)
  case Nil
  then show ?case by simp
next
  case (Cons ep epochs)
  obtain t env where ep: "ep = (t, env)" by (cases ep) auto
  with Cons.prems obtain st1 where e: "toy_execute t env vl bl st = Inr st1"
    and r: "toy_run epochs vl bl st1 = Inr st'"
    by (auto split: sum.splits)
  from toy_execute_schedule[OF e] Cons.prems(2)
  have "\<not> is_full_exploration st1" "exploration_rate st1 = exploration_rate st"
    by (simp_all add: toy_exploration_schedule_def)
  with Cons.IH[OF r] show ?case by simp
qed

lemma run_last_epoch:
  "run epochs secs st = Inr st' \<Longrightarrow> is_exploration_over st \<Longrightarrow>
   is_exploration_over st' \<and> exploration_time st' = exploration_time st \<and>
   gvar_epsilon st' = gvar_epsilon st \<and>
   (epochs \<noteq> [] \<longrightarrow> exploration_rate st' =
      (if fst (last epochs) < exploration_time st then 1 else gvar_epsilon st))"
proof (induction epochs arbitrary: st)
  case Nil
  then show ?case by simp
next
  case (Cons ep epochs)
  obtain t env where ep: "ep = (t, env)" by (cases ep) auto
  with Cons.prems obtain st1 where e: "execute t env secs st = Inr st1"
    and r: "run epochs secs st1 = Inr st'"
    by (auto split: sum.splits)
  from execute_schedule[OF e] Cons.prems(2)
  have 1: "is_exploration_over st1" "exploration_time st1 = exploration_time st"
    "gvar_epsilon st1 = gvar_epsilon st"
    "exploration_rate st1 = (if t < exploration_time st then 1 else gvar_epsilon st)"
    by (simp_all add: exploration_schedule_def)
  show ?case
  proof (cases "epochs = []")
    case True
    with r 1 ep show ?thesis by simp
  next
    case False
    with Cons.IH[OF r 1(1)] 1 show ?thesis by simp
  qed
qed

section \<open>Unfolding the definitions on concrete states\<close>

lemmas clmab_eval = execute_def exploration_schedule_def CLMAB_init_def MySector_init_def
  MyVehicle_init_def env_of_def new_association_def is_backoff_def detection_list_def
  lost_vehicle_def serve_def associate_vehicle_def get_current_context_def get_reward_def
  get_threshold_def to_serve_exploit_def backoff_def update_reward_def Let_def

lemmas toy_eval = toy_execute_def toy_exploration_schedule_def MACOLSolution_init_def
  BaseStation_init_def Vehicle_init_def toy_env_of_def toy_new_association_def toy_is_backoff_def
  reachable_vehicles_def is_connected_def toy_lost_vehicle_def toy_serve_def
  toy_associate_vehicle_def toy_get_current_context_def get_reward_def toy_get_threshold_def
  to_serve_exploit_def toy_backoff_def update_reward_def get_average_serving_duration_def Let_def

section \<open>The decision of one agent\<close>

lemma new_association_exploit:
  assumes "serving_node (sector_of st s) = None" and "\<not> is_backoff (sector_of st s) t"
    and "detection_list env st s \<noteq> []" and "\<not> random_random env s < exploration_rate st"
    and "get_threshold st s = Inr th"
  shows "new_association env t s st =
           Inr (if get_reward st s (Some (get_current_context st s)) = 0 \<or>
                   get_reward st s (Some (get_current_context st s)) > th
                then serve st s
                       (detection_list env st s ! (random_choice env s mod length (detection_list env st s)))
                       t (get_current_context st s)
                else st\<lparr>sector_of := (sector_of st)(s := backoff (sector_of st s) t th)\<rparr>)"
  using assms by (simp add: new_association_def Let_def to_serve_exploit_def)

lemma toy_new_association_exploit:
  assumes "serving_vehicle (bs_of st b) = None" and "\<not> toy_is_backoff (bs_of st b) t"
    and "reachable_vehicles env st b vl \<noteq> []" and "\<not> toy_random env b < exploration_rate st"
  shows "toy_new_association env t vl bl b st =
           (if get_reward st b (toy_get_current_context st b bl) = 0 \<or>
               get_reward st b (toy_get_current_context st b bl) > toy_get_threshold st b
            then Inr (toy_serve st b
                       (reachable_vehicles env st b vl ! (toy_choice env b mod length (reachable_vehicles env st b vl)))
                       t (toy_get_current_context st b bl))
            else (case get_average_serving_duration (bs_of st b) of
                    Inl e \<Rightarrow> Inl e
                  | Inr duration \<Rightarrow>
                      Inr (st\<lparr>bs_of := (bs_of st)(b := toy_backoff (bs_of st b) t duration)\<rparr>)))"
  using assms by (simp add: toy_new_association_def Let_def to_serve_exploit_def)



lemma example_run_sector:
  "sector_after example_run 0 =
     Inr \<lparr>serving_node = None, total_duration = 30, total_interference_free = 30,
          period_conn_count = 1, serving_duration = 30, serving_interference_free = 30,
          neighbour_list = [], MAB_context = Some ''[]'', MAB_backoff = (200, 1)\<rparr>"
  by (simp add: example_run_def sector_after_def clmab_eval collect_stats_def collect_sector_stats_def)

section \<open>The lost connections and their rewards in \<^verbatim>\<open>CLMAB.execute\<close>\<close>

lemma lost_vehicle_other:
  "lost_vehicle st s t = Inr st1 \<Longrightarrow> x \<noteq> s \<Longrightarrow> sector_of st1 x = sector_of st x"
  by (auto simp: lost_vehicle_def split: option.splits)

lemma check_current_association_total:
  "\<exists>lost st'. check_current_association env t secs st = Inr (lost, st')"
proof (induction secs arbitrary: st)
  case Nil
  then show ?case by simp
next
  case (Cons s secs)
  show ?case
  proof (cases "serving_node (sector_of st s)")
    case None
    with Cons show ?thesis by simp
  next
    case (Some v)
    from Cons[of "st\<lparr>vehicle_of := (vehicle_of st)(v := (vehicle_of st v)\<lparr>associated_sector := None\<rparr>),
             sector_of := (sector_of st)(s := (sector_of st s)\<lparr>serving_node := None\<rparr>)\<rparr>"]
      Cons[of st] Some
    show ?thesis by (auto simp: lost_vehicle_Some)
  qed
qed

lemma check_current_association_sectors:
  "check_current_association env t secs st = Inr (lost, st') \<Longrightarrow>
   sector_of st' x = (sector_of st x)\<lparr>serving_node := serving_node (sector_of st' x)\<rparr> \<and>
   serving_node (sector_of st' x) =
     (if x \<in> set secs \<and> lost_connection env st x then None else serving_node (sector_of st x))"
proof (induction secs arbitrary: st lost)
  case Nil
  then show ?case by simp
next
  case (Cons s secs)
  show ?case
  proof (cases "serving_node (sector_of st s)")
    case None
    with Cons.prems have "check_current_association env t secs st = Inr (lost, st')" by simp
    from Cons.IH[OF this] None show ?thesis by (auto simp: lost_connection_def)
  next
    case (Some v)
    show ?thesis
    proof (cases "VehicleNode v \<notin> set (broadcast env s)")
      case True
      let ?st1 = "st\<lparr>vehicle_of := (vehicle_of st)(v := (vehicle_of st v)\<lparr>associated_sector := None\<rparr>),
             sector_of := (sector_of st)(s := (sector_of st s)\<lparr>serving_node := None\<rparr>)\<rparr>"
      from Cons.prems Some True obtain lost' where
        r: "check_current_association env t secs ?st1 = Inr (lost', st')"
        by (auto simp: lost_vehicle_Some split: sum.splits)
      from Cons.IH[OF r] Some True show ?thesis
        by (auto simp: lost_connection_def)
    next
      case False
      with Cons.prems Some have "check_current_association env t secs st = Inr (lost, st')" by simp
      from Cons.IH[OF this] Some False show ?thesis by (auto simp: lost_connection_def)
    qed
  qed
qed

lemma check_current_association_lost:
  "distinct secs \<Longrightarrow> check_current_association env t secs st = Inr (lost, st') \<Longrightarrow>
   map fst lost = filter (lost_connection env st) secs"
proof (induction secs arbitrary: st lost)
  case Nil
  then show ?case by simp
next
  case (Cons s secs)
  from Cons.prems(1) have d: "distinct secs" and ns: "s \<notin> set secs" by simp_all
  show ?case
  proof (cases "serving_node (sector_of st s)")
    case None
    with Cons.prems have "check_current_association env t secs st = Inr (lost, st')" by simp
    from Cons.IH[OF d this] None show ?thesis by (simp add: lost_connection_def)
  next
    case (Some v)
    show ?thesis
    proof (cases "VehicleNode v \<notin> set (broadcast env s)")
      case True
      let ?st1 = "st\<lparr>vehicle_of := (vehicle_of st)(v := (vehicle_of st v)\<lparr>associated_sector := None\<rparr>),
             sector_of := (sector_of st)(s := (sector_of st s)\<lparr>serving_node := None\<rparr>)\<rparr>"
      from Cons.prems Some True obtain lost' where
        r: "check_current_association env t secs ?st1 = Inr (lost', st')"
        and l: "lost = (s, v) # lost'"
        by (auto simp: lost_vehicle_Some split: sum.splits)
      have feq: "filter (lost_connection env ?st1) secs = filter (lost_connection env st) secs"
        using ns by (intro filter_cong) (auto simp: lost_connection_def)
      have ls: "lost_connection env st s"
        using Some True by (simp add: lost_connection_def)
      have "map fst lost' = filter (lost_connection env ?st1) secs"
        by (rule Cons.IH[OF d r])
      also note feq
      finally show ?thesis using l ls by simp
    next
      case False
      with Cons.prems Some have "check_current_association env t secs st = Inr (lost, st')" by simp
      from Cons.IH[OF d this] Some False show ?thesis by (simp add: lost_connection_def)
    qed
  qed
qed

lemma update_reward_local:
  assumes "update_reward a s c r = Inr a'"
    and "q_value b s = q_value a s" and "q_count b s = q_count a s"
  shows "\<exists>b'. update_reward b s c r = Inr b' \<and> q_value b' s = q_value a' s \<and> q_count b' s = q_count a' s"
  using assms
  by (auto simp: update_reward_def Let_def AList.update_conv' split: if_splits option.splits)

lemma update_reward_other:
  assumes "update_reward a s c r = Inr a'" and "x \<noteq> s"
  shows "q_value a' x = q_value a x" and "q_count a' x = q_count a x"
  using update_reward_tables[OF assms(1)] assms(2) by auto

lemma update_lost_rewards_total:
  "tables_agree st \<Longrightarrow> \<exists>st'. update_lost_rewards lost st = Inr st' \<and> tables_agree st'"
proof (induction lost arbitrary: st)
  case Nil
  then show ?case by simp
next
  case (Cons p lost)
  obtain s v where p: "p = (s, v)" by (cases p) auto
  show ?case
  proof (cases "serving_duration (sector_of st s) = 0")
    case True
    with Cons p show ?thesis by simp
  next
    case False
    from update_reward_total[OF Cons.prems] obtain st1 where
      u: "update_reward st s (MAB_context (sector_of st s))
            (serving_interference_free (sector_of st s) / serving_duration (sector_of st s)) = Inr st1"
      by blast
    from Cons.IH[OF update_reward_agree[OF Cons.prems u]] u p False show ?thesis
      by (simp add: Let_def)
  qed
qed

lemma update_lost_rewards_tables:
  "distinct (map fst lost) \<Longrightarrow> update_lost_rewards lost st = Inr st' \<Longrightarrow>
   (if x \<in> fst ` set lost \<and> serving_duration (sector_of st x) \<noteq> 0
    then \<exists>st''. update_reward st x (MAB_context (sector_of st x))
                  (serving_interference_free (sector_of st x) / serving_duration (sector_of st x)) = Inr st'' \<and>
                q_value st' x = q_value st'' x \<and> q_count st' x = q_count st'' x
    else q_value st' x = q_value st x \<and> q_count st' x = q_count st x)"
proof (induction lost arbitrary: st)
  case Nil
  then show ?case by simp
next
  case (Cons p lost)
  obtain s v where p: "p = (s, v)" by (cases p) auto
  define inl where "inl = (x \<in> fst ` set lost)"
  from Cons.prems(1) p have d: "distinct (map fst lost)" and ns: "s \<notin> fst ` set lost" by auto
  have m: "x \<in> fst ` set (p # lost) \<longleftrightarrow> x = s \<or> inl" by (simp add: p inl_def)
  have nsx: "x = s \<Longrightarrow> \<not> inl" using ns by (simp add: inl_def)
  show ?case
  proof (cases "serving_duration (sector_of st s) = 0")
    case True
    with Cons.prems p have r: "update_lost_rewards lost st = Inr st'" by simp
    note ih = Cons.IH[OF d r, folded inl_def]
    show ?thesis
    proof (cases "x = s")
      case xs: True
      with ih nsx True show ?thesis unfolding m by simp
    next
      case False
      with ih show ?thesis unfolding m by simp
    qed
  next
    case False
    with Cons.prems p obtain st1 where
      u: "update_reward st s (MAB_context (sector_of st s))
            (serving_interference_free (sector_of st s) / serving_duration (sector_of st s)) = Inr st1"
      and r: "update_lost_rewards lost st1 = Inr st'"
      by (auto simp: Let_def split: sum.splits)
    have sec: "sector_of st1 = sector_of st" by (rule update_reward_frame(5)[OF u])
    note ih = Cons.IH[OF d r, unfolded sec, folded inl_def]
    show ?thesis
    proof (cases "x = s")
      case True
      with ih nsx u False show ?thesis unfolding m by auto
    next
      case xs: False
      have same: "q_value st1 x = q_value st x" "q_count st1 x = q_count st x"
        using update_reward_other[OF u xs] by simp_all
      show ?thesis
      proof (cases "inl \<and> serving_duration (sector_of st x) \<noteq> 0")
        case True
        with ih obtain st2 where
          u2: "update_reward st1 x (MAB_context (sector_of st x))
                 (serving_interference_free (sector_of st x) / serving_duration (sector_of st x)) = Inr st2"
          and t2: "q_value st' x = q_value st2 x" "q_count st' x = q_count st2 x"
          by auto
        from update_reward_local[OF u2 same[symmetric]] t2 True xs show ?thesis
          unfolding m by auto
      next
        case False
        with ih same xs show ?thesis unfolding m by auto
      qed
    qed
  qed
qed

lemma new_association_total: "\<exists>st'. new_association env t s st = Inr st'"
proof -
  obtain th where "get_threshold st s = Inr th" by (auto simp: get_threshold_loop)
  then show ?thesis by (simp add: new_association_def Let_def)
qed

lemma check_new_association_total: "\<exists>st'. check_new_association env t secs st = Inr st'"
proof (induction secs arbitrary: st)
  case Nil
  then show ?case by simp
next
  case (Cons s secs)
  from new_association_total[of env t s st] obtain st1 where
    "new_association env t s st = Inr st1" by blast
  with Cons[of st1] show ?case by simp
qed

lemma exploration_schedule_frame:
  "q_value (exploration_schedule t st) = q_value st"
  "q_count (exploration_schedule t st) = q_count st"
  "sector_of (exploration_schedule t st) = sector_of st"
  "vehicle_of (exploration_schedule t st) = vehicle_of st"
  by (simp_all add: exploration_schedule_def)

lemma tables_agree_schedule: "tables_agree (exploration_schedule t st) = tables_agree st"
  by (simp add: tables_agree_def exploration_schedule_frame)

lemma lost_connection_schedule:
  "lost_connection env (exploration_schedule t st) = lost_connection env st"
  by (simp add: lost_connection_def exploration_schedule_frame fun_eq_iff)

lemma execute_total:
  assumes "tables_agree st"
  shows "\<exists>st'. execute t env secs st = Inr st' \<and> tables_agree st'"
proof -
  from check_current_association_total obtain lost st2 where
    a: "check_current_association env t secs (exploration_schedule t st) = Inr (lost, st2)" by blast
  from check_current_association_frame[OF a] assms
  have "tables_agree st2" by (simp add: tables_agree_def exploration_schedule_frame)
  from update_lost_rewards_total[OF this] obtain st3 where
    b: "update_lost_rewards lost st2 = Inr st3" and ag: "tables_agree st3" by blast
  from check_new_association_total obtain st' where
    c: "check_new_association env t secs st3 = Inr st'" by blast
  from check_new_association_frame[OF c] ag have "tables_agree st'"
    by (simp add: tables_agree_def)
  with a b c show ?thesis by (simp add: execute_def)
qed

lemma execute_tables:
  assumes d: "distinct secs" and e: "execute t env secs st = Inr st'"
  shows "if x \<in> set secs \<and> lost_connection env st x \<and> serving_duration (sector_of st x) \<noteq> 0
    then \<exists>st''. update_reward st x (MAB_context (sector_of st x))
                  (serving_interference_free (sector_of st x) / serving_duration (sector_of st x)) = Inr st'' \<and>
                q_value st' x = q_value st'' x \<and> q_count st' x = q_count st'' x
    else q_value st' x = q_value st x \<and> q_count st' x = q_count st x"
proof -
  from e obtain lost st2 st3 where
    a: "check_current_association env t secs (exploration_schedule t st) = Inr (lost, st2)"
    and b: "update_lost_rewards lost st2 = Inr st3"
    and c: "check_new_association env t secs st3 = Inr st'"
    by (auto simp: execute_def split: sum.splits)
  have l: "map fst lost = filter (lost_connection env st) secs"
    using check_current_association_lost[OF d a] by (simp add: lost_connection_schedule)
  then have dl: "distinct (map fst lost)" using d by simp
  have mem: "x \<in> fst ` set lost \<longleftrightarrow> x \<in> set secs \<and> lost_connection env st x"
  proof -
    have "fst ` set lost = set (map fst lost)" by simp
    also have "\<dots> = {s \<in> set secs. lost_connection env st s}" unfolding l by simp
    finally show ?thesis by auto
  qed
  have sx: "serving_duration (sector_of st2 x) = serving_duration (sector_of st x)"
    "serving_interference_free (sector_of st2 x) = serving_interference_free (sector_of st x)"
    "MAB_context (sector_of st2 x) = MAB_context (sector_of st x)"
    using check_current_association_sectors[OF a, of x]
    by (metis exploration_schedule_frame(3) my_sector.select_convs my_sector.surjective my_sector.update_convs(1))+
  have q2: "q_value st2 = q_value st" "q_count st2 = q_count st"
    using check_current_association_frame[OF a] by (simp_all add: exploration_schedule_frame)
  have q3: "q_value st' = q_value st3" "q_count st' = q_count st3"
    using check_new_association_frame[OF c] by simp_all
  show ?thesis
  proof (cases "x \<in> set secs \<and> lost_connection env st x \<and> serving_duration (sector_of st x) \<noteq> 0")
    case True
    with update_lost_rewards_tables[OF dl b, of x] mem sx obtain st4 where
      u: "update_reward st2 x (MAB_context (sector_of st x))
            (serving_interference_free (sector_of st x) / serving_duration (sector_of st x)) = Inr st4"
      and t4: "q_value st3 x = q_value st4 x" "q_count st3 x = q_count st4 x"
      by auto
    have "q_value st x = q_value st2 x" "q_count st x = q_count st2 x" using q2 by simp_all
    from update_reward_local[OF u this] t4 q3 True show ?thesis by auto
  next
    case False
    with update_lost_rewards_tables[OF dl b, of x] mem sx q2 q3 show ?thesis by auto
  qed
qed

section \<open>What the toy's \<^verbatim>\<open>execute\<close> keeps\<close>

lemma toy_inv_I:
  assumes "tables_agree st"
    and "\<And>b. serving_vehicle (bs_of st b) \<noteq> None \<Longrightarrow> toy_MAB_context (bs_of st b) \<noteq> None"
    and "\<And>b. q_value st b \<noteq> [] \<Longrightarrow> total_serving_count (bs_of st b) \<noteq> 0"
  shows "toy_inv st"
  using assms by (simp add: toy_inv_def)

lemma toy_inv_D:
  assumes "toy_inv st"
  shows "tables_agree st"
    and "serving_vehicle (bs_of st b) \<noteq> None \<Longrightarrow> toy_MAB_context (bs_of st b) \<noteq> None"
    and "q_value st b \<noteq> [] \<Longrightarrow> total_serving_count (bs_of st b) \<noteq> 0"
  using assms by (simp_all add: toy_inv_def)

lemma toy_inv_init: "toy_inv MACOLSolution_init"
  by (simp add: toy_inv_def tables_agree_def MACOLSolution_init_def BaseStation_init_def)

lemma toy_inv_schedule: "toy_inv (toy_exploration_schedule t st) = toy_inv st"
  by (simp add: toy_inv_def tables_agree_def toy_exploration_schedule_def)

lemma toy_check_current_association_total:
  "\<exists>lost st'. toy_check_current_association env t bl st = Inr (lost, st')"
proof (induction bl arbitrary: st)
  case Nil
  then show ?case by simp
next
  case (Cons b bl)
  show ?case
  proof (cases "serving_vehicle (bs_of st b)")
    case None
    with Cons show ?thesis by simp
  next
    case (Some v)
    from Cons[of st] Cons[of "st\<lparr>toy_vehicle_of := (toy_vehicle_of st)
                     (v := (toy_vehicle_of st v)\<lparr>associated_bs := None\<rparr>),
                  bs_of := (bs_of st)
                     (b := (bs_of st b)
                        \<lparr>total_serving_duration :=
                           total_serving_duration (bs_of st b) + toy_serving_duration (bs_of st b),
                         total_serving_count := total_serving_count (bs_of st b) + 1,
                         serving_vehicle := None\<rparr>)\<rparr>"] Some
    show ?thesis by (auto simp: toy_lost_vehicle_Some)
  qed
qed

lemma toy_lost_vehicle_inv:
  assumes "toy_inv st" and "toy_lost_vehicle st b t = Inr st1"
  shows "toy_inv st1" and "total_serving_count (bs_of st1 b) \<noteq> 0"
    and "toy_MAB_context (bs_of st1 b) \<noteq> None"
    and "\<And>x. total_serving_count (bs_of st x) \<noteq> 0 \<Longrightarrow> total_serving_count (bs_of st1 x) \<noteq> 0"
    and "\<And>x. toy_MAB_context (bs_of st1 x) = toy_MAB_context (bs_of st x)"
    and "\<And>x. serving_inter_free (bs_of st1 x) = serving_inter_free (bs_of st x)"
  using assms
  by (auto simp: toy_lost_vehicle_def toy_inv_def tables_agree_def split: option.splits)

lemma toy_check_current_association_inv:
  "toy_inv st \<Longrightarrow> toy_check_current_association env t bl st = Inr (lost, st') \<Longrightarrow>
   toy_inv st' \<and>
   (\<forall>x \<in> fst ` set lost. total_serving_count (bs_of st' x) \<noteq> 0 \<and> toy_MAB_context (bs_of st' x) \<noteq> None) \<and>
   (\<forall>x. toy_MAB_context (bs_of st' x) = toy_MAB_context (bs_of st x) \<and>
        serving_inter_free (bs_of st' x) = serving_inter_free (bs_of st x) \<and>
        (total_serving_count (bs_of st x) \<noteq> 0 \<longrightarrow> total_serving_count (bs_of st' x) \<noteq> 0))"
proof (induction bl arbitrary: st lost)
  case Nil
  then show ?case by simp
next
  case (Cons b bl)
  show ?case
  proof (cases "serving_vehicle (bs_of st b)")
    case None
    with Cons.prems have "toy_check_current_association env t bl st = Inr (lost, st')" by simp
    from Cons.IH[OF Cons.prems(1) this] show ?thesis .
  next
    case (Some v)
    show ?thesis
    proof (cases "can_reach env b v")
      case True
      with Cons.prems Some have "toy_check_current_association env t bl st = Inr (lost, st')" by simp
      from Cons.IH[OF Cons.prems(1) this] show ?thesis .
    next
      case False
      from Cons.prems Some False obtain lost' st1 where
        l: "toy_lost_vehicle st b t = Inr st1"
        and r: "toy_check_current_association env t bl st1 = Inr (lost', st')"
        and ll: "lost = (b, v) # lost'"
        by (auto split: sum.splits)
      note a = toy_lost_vehicle_inv[OF Cons.prems(1) l]
      note ih = Cons.IH[OF a(1) r]
      from ih have i': "toy_inv st'"
        and l': "\<forall>x \<in> fst ` set lost'. total_serving_count (bs_of st' x) \<noteq> 0 \<and>
                   toy_MAB_context (bs_of st' x) \<noteq> None"
        and f': "\<forall>x. toy_MAB_context (bs_of st' x) = toy_MAB_context (bs_of st1 x) \<and>
                   serving_inter_free (bs_of st' x) = serving_inter_free (bs_of st1 x) \<and>
                   (total_serving_count (bs_of st1 x) \<noteq> 0 \<longrightarrow> total_serving_count (bs_of st' x) \<noteq> 0)"
        by blast+
      from f' a(2,3) have b': "total_serving_count (bs_of st' b) \<noteq> 0 \<and>
          toy_MAB_context (bs_of st' b) \<noteq> None"
        by metis
      have "fst ` set lost = insert b (fst ` set lost')" using ll by simp
      with l' b' have l: "\<forall>x \<in> fst ` set lost. total_serving_count (bs_of st' x) \<noteq> 0 \<and>
                   toy_MAB_context (bs_of st' x) \<noteq> None"
        by simp
      have f: "\<forall>x. toy_MAB_context (bs_of st' x) = toy_MAB_context (bs_of st x) \<and>
        serving_inter_free (bs_of st' x) = serving_inter_free (bs_of st x) \<and>
        (total_serving_count (bs_of st x) \<noteq> 0 \<longrightarrow> total_serving_count (bs_of st' x) \<noteq> 0)"
        using f' a(4,5,6) by metis
      from i' l f show ?thesis by blast
    qed
  qed
qed

lemma toy_update_reward_inv:
  fixes st :: macol_state
  assumes "toy_inv st" and "update_reward st b c r = Inr st1"
    and "total_serving_count (bs_of st b) \<noteq> 0"
  shows "toy_inv st1"
proof (rule toy_inv_I)
  show "tables_agree st1" by (rule update_reward_agree[OF toy_inv_D(1)[OF assms(1)] assms(2)])
next
  fix x assume "serving_vehicle (bs_of st1 x) \<noteq> None"
  with toy_update_reward_frame(5)[OF assms(2)] toy_inv_D(2)[OF assms(1)]
  show "toy_MAB_context (bs_of st1 x) \<noteq> None" by simp
next
  fix x assume q: "q_value st1 x \<noteq> []"
  show "total_serving_count (bs_of st1 x) \<noteq> 0"
  proof (cases "x = b")
    case True
    with assms(3) toy_update_reward_frame(5)[OF assms(2)] show ?thesis by simp
  next
    case False
    from update_reward_other[OF assms(2) False] q have "q_value st x \<noteq> []" by simp
    with toy_inv_D(3)[OF assms(1)] toy_update_reward_frame(5)[OF assms(2)] show ?thesis by simp
  qed
qed

lemma toy_update_lost_rewards_total:
  "toy_inv st \<Longrightarrow>
   \<forall>x \<in> fst ` set lost. total_serving_count (bs_of st x) \<noteq> 0 \<and> toy_MAB_context (bs_of st x) \<noteq> None \<Longrightarrow>
   \<exists>st'. toy_update_lost_rewards lost st = Inr st' \<and> toy_inv st'"
proof (induction lost arbitrary: st)
  case Nil
  then show ?case by simp
next
  case (Cons p lost)
  obtain b v where p: "p = (b, v)" by (cases p) auto
  from Cons.prems(2) p obtain c where c: "toy_MAB_context (bs_of st b) = Some c"
    and n: "total_serving_count (bs_of st b) \<noteq> 0" by auto
  from update_reward_total[OF toy_inv_D(1)[OF Cons.prems(1)]] obtain st1 where
    u: "update_reward st b c (serving_inter_free (bs_of st b)) = Inr st1" by blast
  have i1: "toy_inv st1" by (rule toy_update_reward_inv[OF Cons.prems(1) u n])
  have "\<forall>x \<in> fst ` set lost. total_serving_count (bs_of st1 x) \<noteq> 0 \<and> toy_MAB_context (bs_of st1 x) \<noteq> None"
    using Cons.prems(2) toy_update_reward_frame(5)[OF u] by simp
  from Cons.IH[OF i1 this] u c p show ?case by (simp add: Let_def)
qed

lemma get_reward_nonzero_table: "get_reward st b c \<noteq> 0 \<Longrightarrow> q_value st b \<noteq> []"
  by (auto simp: get_reward_def split: option.splits)

lemma toy_new_association_total:
  assumes "toy_inv st"
  shows "\<exists>st'. toy_new_association env t vl bl b st = Inr st' \<and> toy_inv st'"
proof -
  have avg: "get_average_serving_duration (bs_of st b)
             = Inr (total_serving_duration (bs_of st b) / real (total_serving_count (bs_of st b)))"
    if "get_reward st b (toy_get_current_context st b bl) \<noteq> 0"
    using toy_inv_D(3)[OF assms get_reward_nonzero_table[OF that]]
    by (simp add: get_average_serving_duration_def)
  have s: "toy_inv (toy_serve st b v t c)" for v c
    using assms
    by (simp add: toy_inv_def tables_agree_def toy_serve_def toy_associate_vehicle_def Let_def)
  have k: "toy_inv (st\<lparr>bs_of := (bs_of st)(b := toy_backoff (bs_of st b) t d)\<rparr>)" for d
    using assms
    by (simp add: toy_inv_def tables_agree_def toy_backoff_def)
  show ?thesis
    using assms avg s k
    by (auto simp: toy_new_association_def Let_def to_serve_exploit_def)
qed

lemma toy_check_new_association_total:
  "toy_inv st \<Longrightarrow> \<exists>st'. toy_check_new_association env t vl bl bs st = Inr st' \<and> toy_inv st'"
proof (induction bs arbitrary: st)
  case Nil
  then show ?case by simp
next
  case (Cons b bs)
  from toy_new_association_total[OF Cons.prems, of env t vl bl b] obtain st1 where
    n: "toy_new_association env t vl bl b st = Inr st1" and i: "toy_inv st1" by blast
  from Cons.IH[OF i] n show ?case by simp
qed

lemma toy_check_new_association_inv:
  "toy_inv st \<Longrightarrow> toy_check_new_association env t vl bl bs st = Inr st' \<Longrightarrow> toy_inv st'"
  using toy_check_new_association_total[of st env t vl bl bs] by auto

lemma toy_execute_total:
  assumes "toy_inv st"
  shows "\<exists>st'. toy_execute t env vl bl st = Inr st' \<and> toy_inv st'"
proof -
  from toy_check_current_association_total obtain lost st2 where
    a: "toy_check_current_association env t bl (toy_exploration_schedule t st) = Inr (lost, st2)"
    by blast
  from assms have "toy_inv (toy_exploration_schedule t st)" by (simp add: toy_inv_schedule)
  note i2 = toy_check_current_association_inv[OF this a]
  from i2 have "toy_inv st2"
    and "\<forall>x \<in> fst ` set lost. total_serving_count (bs_of st2 x) \<noteq> 0 \<and> toy_MAB_context (bs_of st2 x) \<noteq> None"
    by blast+
  from toy_update_lost_rewards_total[OF this] obtain st3 where
    b: "toy_update_lost_rewards lost st2 = Inr st3" and i3: "toy_inv st3" by blast
  from toy_check_new_association_total[OF i3] obtain st' where
    c: "toy_check_new_association env t vl bl bl st3 = Inr st'" and i: "toy_inv st'" by blast
  from a b c i show ?thesis by (simp add: toy_execute_def)
qed

lemma fold_inv:
  assumes "\<And>x s. P s \<Longrightarrow> P (f x s)" and "P s"
  shows "P (fold f xs s)"
  using assms(2) by (induction xs arbitrary: s) (simp_all add: assms(1))

lemma after_execute_inv:
  assumes "toy_inv st"
  shows "toy_inv (after_execute env vl bl gone st)"
proof -
  have a: "toy_inv (count_signals env bl v s)" if "toy_inv s" for v s
    using that by (simp add: toy_inv_def tables_agree_def count_signals_def)
  have b: "toy_inv (count_duration x s)" if "toy_inv s" for x s
    using that
    by (auto simp: toy_inv_def tables_agree_def count_duration_def Let_def split: option.splits)
  have c: "toy_inv (reset_vehicle v s)" if "toy_inv s" for v s
    using that by (simp add: toy_inv_def tables_agree_def reset_vehicle_def)
  show ?thesis
    unfolding after_execute_def
    by (intro fold_inv[where P = toy_inv] a b c assms)
qed

lemma toy_reachable_inv: "toy_reachable t st \<Longrightarrow> toy_inv st"
proof (induction rule: toy_reachable.induct)
  case toy_reachable_init
  show ?case by (rule toy_inv_init)
next
  case (toy_reachable_execute t st sim_time env vehicle_list bs_list st')
  from toy_execute_total[OF toy_reachable_execute.IH, of sim_time env vehicle_list bs_list]
    toy_reachable_execute.hyps(3)
  show ?case by simp
next
  case (toy_reachable_after t st env vehicle_list bs_list gone)
  then show ?case by (simp add: after_execute_inv)
qed

lemma toy_check_current_association_lost:
  "distinct bl \<Longrightarrow> toy_check_current_association env t bl st = Inr (lost, st') \<Longrightarrow>
   map fst lost = filter (toy_lost_connection env st) bl"
proof (induction bl arbitrary: st lost)
  case Nil
  then show ?case by simp
next
  case (Cons b bl)
  from Cons.prems(1) have d: "distinct bl" and ns: "b \<notin> set bl" by simp_all
  show ?case
  proof (cases "serving_vehicle (bs_of st b)")
    case None
    with Cons.prems have "toy_check_current_association env t bl st = Inr (lost, st')" by simp
    from Cons.IH[OF d this] None show ?thesis by (simp add: toy_lost_connection_def)
  next
    case (Some v)
    show ?thesis
    proof (cases "can_reach env b v")
      case False
      let ?st1 = "st\<lparr>toy_vehicle_of := (toy_vehicle_of st)
                     (v := (toy_vehicle_of st v)\<lparr>associated_bs := None\<rparr>),
                  bs_of := (bs_of st)
                     (b := (bs_of st b)
                        \<lparr>total_serving_duration :=
                           total_serving_duration (bs_of st b) + toy_serving_duration (bs_of st b),
                         total_serving_count := total_serving_count (bs_of st b) + 1,
                         serving_vehicle := None\<rparr>)\<rparr>"
      from Cons.prems Some False obtain lost' where
        r: "toy_check_current_association env t bl ?st1 = Inr (lost', st')"
        and l: "lost = (b, v) # lost'"
        by (auto simp: toy_lost_vehicle_Some split: sum.splits)
      have feq: "filter (toy_lost_connection env ?st1) bl = filter (toy_lost_connection env st) bl"
        using ns by (intro filter_cong) (auto simp: toy_lost_connection_def)
      have ls: "toy_lost_connection env st b"
        using Some False by (simp add: toy_lost_connection_def)
      have "map fst lost' = filter (toy_lost_connection env ?st1) bl"
        by (rule Cons.IH[OF d r])
      also note feq
      finally show ?thesis using l ls by simp
    next
      case True
      with Cons.prems Some have "toy_check_current_association env t bl st = Inr (lost, st')" by simp
      from Cons.IH[OF d this] Some True show ?thesis by (simp add: toy_lost_connection_def)
    qed
  qed
qed

lemma toy_update_lost_rewards_tables:
  "distinct (map fst lost) \<Longrightarrow> toy_update_lost_rewards lost st = Inr st' \<Longrightarrow>
   (if x \<in> fst ` set lost
    then \<exists>c st''. toy_MAB_context (bs_of st x) = Some c \<and>
                  update_reward st x c (serving_inter_free (bs_of st x)) = Inr st'' \<and>
                  q_value st' x = q_value st'' x \<and> q_count st' x = q_count st'' x
    else q_value st' x = q_value st x \<and> q_count st' x = q_count st x)"
proof (induction lost arbitrary: st)
  case Nil
  then show ?case by simp
next
  case (Cons p lost)
  obtain b v where p: "p = (b, v)" by (cases p) auto
  define inl where "inl = (x \<in> fst ` set lost)"
  from Cons.prems(1) p have d: "distinct (map fst lost)" and ns: "b \<notin> fst ` set lost" by auto
  have m: "x \<in> fst ` set (p # lost) \<longleftrightarrow> x = b \<or> inl" by (simp add: p inl_def)
  have nsx: "x = b \<Longrightarrow> \<not> inl" using ns by (simp add: inl_def)
  from Cons.prems(2) p obtain c st1 where
    c: "toy_MAB_context (bs_of st b) = Some c"
    and u: "update_reward st b c (serving_inter_free (bs_of st b)) = Inr st1"
    and r: "toy_update_lost_rewards lost st1 = Inr st'"
    by (auto simp: Let_def split: sum.splits option.splits)
  have sec: "bs_of st1 = bs_of st" by (rule toy_update_reward_frame(5)[OF u])
  note ih = Cons.IH[OF d r, unfolded sec, folded inl_def]
  show ?case
  proof (cases "x = b")
    case True
    with ih nsx u c show ?thesis unfolding m by auto
  next
    case xs: False
    have same: "q_value st1 x = q_value st x" "q_count st1 x = q_count st x"
      using update_reward_other[OF u xs] by simp_all
    show ?thesis
    proof (cases inl)
      case True
      with ih obtain c2 st2 where
        c2: "toy_MAB_context (bs_of st x) = Some c2"
        and u2: "update_reward st1 x c2 (serving_inter_free (bs_of st x)) = Inr st2"
        and t2: "q_value st' x = q_value st2 x" "q_count st' x = q_count st2 x"
        by auto
      from update_reward_local[OF u2 same[symmetric]] c2 t2 True xs show ?thesis
        unfolding m by auto
    next
      case False
      with ih same xs show ?thesis unfolding m by auto
    qed
  qed
qed

lemma toy_lost_connection_schedule:
  "toy_lost_connection env (toy_exploration_schedule t st) = toy_lost_connection env st"
  by (simp add: toy_lost_connection_def toy_exploration_schedule_def fun_eq_iff)

lemma toy_exploration_schedule_frame:
  "q_value (toy_exploration_schedule t st) = q_value st"
  "q_count (toy_exploration_schedule t st) = q_count st"
  "bs_of (toy_exploration_schedule t st) = bs_of st"
  "toy_vehicle_of (toy_exploration_schedule t st) = toy_vehicle_of st"
  by (simp_all add: toy_exploration_schedule_def)

lemma toy_execute_tables:
  assumes i: "toy_inv st" and d: "distinct bl" and e: "toy_execute t env vl bl st = Inr st'"
  shows "if x \<in> set bl \<and> toy_lost_connection env st x
    then \<exists>c st''. toy_MAB_context (bs_of st x) = Some c \<and>
                  update_reward st x c (serving_inter_free (bs_of st x)) = Inr st'' \<and>
                  q_value st' x = q_value st'' x \<and> q_count st' x = q_count st'' x
    else q_value st' x = q_value st x \<and> q_count st' x = q_count st x"
proof -
  from e obtain lost st2 st3 where
    a: "toy_check_current_association env t bl (toy_exploration_schedule t st) = Inr (lost, st2)"
    and b: "toy_update_lost_rewards lost st2 = Inr st3"
    and c: "toy_check_new_association env t vl bl bl st3 = Inr st'"
    by (auto simp: toy_execute_def split: sum.splits)
  have l: "map fst lost = filter (toy_lost_connection env st) bl"
    using toy_check_current_association_lost[OF d a] by (simp add: toy_lost_connection_schedule)
  then have dl: "distinct (map fst lost)" using d by simp
  have mem: "x \<in> fst ` set lost \<longleftrightarrow> x \<in> set bl \<and> toy_lost_connection env st x"
  proof -
    have "fst ` set lost = set (map fst lost)" by simp
    also have "\<dots> = {s \<in> set bl. toy_lost_connection env st s}" unfolding l by simp
    finally show ?thesis by auto
  qed
  from i have "toy_inv (toy_exploration_schedule t st)" by (simp add: toy_inv_schedule)
  from toy_check_current_association_inv[OF this a]
  have sx: "toy_MAB_context (bs_of st2 x) = toy_MAB_context (bs_of st x)"
    "serving_inter_free (bs_of st2 x) = serving_inter_free (bs_of st x)"
    by (simp_all add: toy_exploration_schedule_frame)
  have q2: "q_value st2 = q_value st" "q_count st2 = q_count st"
    using toy_check_current_association_frame[OF a] by (simp_all add: toy_exploration_schedule_frame)
  have q3: "q_value st' = q_value st3" "q_count st' = q_count st3"
    using toy_check_new_association_frame[OF c] by simp_all
  show ?thesis
  proof (cases "x \<in> set bl \<and> toy_lost_connection env st x")
    case True
    with toy_update_lost_rewards_tables[OF dl b, of x] mem sx obtain c4 st4 where
      c4: "toy_MAB_context (bs_of st x) = Some c4"
      and u: "update_reward st2 x c4 (serving_inter_free (bs_of st x)) = Inr st4"
      and t4: "q_value st3 x = q_value st4 x" "q_count st3 x = q_count st4 x"
      by auto
    have "q_value st x = q_value st2 x" "q_count st x = q_count st2 x" using q2 by simp_all
    from update_reward_local[OF u this] c4 t4 q3 True show ?thesis by auto
  next
    case False
    with toy_update_lost_rewards_tables[OF dl b, of x] mem sx q2 q3 show ?thesis by auto
  qed
qed

section \<open>Worked examples\<close>

lemmas stats_eval = collect_stats_def collect_sector_stats_def after_execute_def count_signals_def
  count_duration_def reset_vehicle_def reset_def

lemma toy_example_run_result:
  "tables_after toy_example_run 0 = Inr ([(''[]'', 2)], [(''[]'', 1)]) \<and>
   bs_after toy_example_run 0 =
     Inr \<lparr>serving_vehicle = None, total_serving_duration = 2, total_serving_count = 1,
          toy_serving_duration = 2, serving_inter_free = 2, toy_MAB_context = Some ''[]'',
          MACOL_backoff = (0, 0)\<rparr>"
  by (simp add: toy_example_run_def tables_after_def bs_after_def toy_eval stats_eval)

lemma serving_state_sector:
  "sector_of serving_state 0 =
     \<lparr>serving_node = Some 0, total_duration = 30, total_interference_free = 30,
      period_conn_count = 1, serving_duration = 30, serving_interference_free = 30,
      neighbour_list = [], MAB_context = Some ''[]'', MAB_backoff = (0, 0)\<rparr>"
  by (simp add: serving_state_def clmab_eval stats_eval)

lemma serving_state_tables: "q_value serving_state = (\<lambda>s. [])" "q_count serving_state = (\<lambda>s. [])"
  by (simp_all add: serving_state_def clmab_eval stats_eval split: option.splits)

lemma toy_serving_state_bs:
  "bs_of toy_serving_state 0 =
     \<lparr>serving_vehicle = Some 0, total_serving_duration = 0, total_serving_count = 0,
      toy_serving_duration = 1, serving_inter_free = 1, toy_MAB_context = Some ''[]'',
      MACOL_backoff = (0, 0)\<rparr>"
  by (simp add: toy_serving_state_def toy_eval stats_eval)

lemma toy_serving_state_inv: "toy_inv toy_serving_state"
  unfolding toy_serving_state_def
  by (intro after_execute_inv)
     (simp add: toy_inv_def tables_agree_def toy_eval)

section \<open>The invariant inside one call of the toy's \<^verbatim>\<open>execute\<close>\<close>

lemma toy_blocks_inv:
  assumes i: "toy_inv st"
    and a: "toy_check_current_association env tt bl (toy_exploration_schedule tt st) = Inr (lost, st2)"
    and b: "toy_update_lost_rewards lost st2 = Inr st3"
    and c: "toy_check_new_association env tt vl bl pre st3 = Inr st4"
  shows "toy_inv st4"
proof -
  from i have "toy_inv (toy_exploration_schedule tt st)" by (simp add: toy_inv_schedule)
  note i2 = toy_check_current_association_inv[OF this a]
  from i2 have "toy_inv st2"
    and "\<forall>x \<in> fst ` set lost. total_serving_count (bs_of st2 x) \<noteq> 0 \<and> toy_MAB_context (bs_of st2 x) \<noteq> None"
    by blast+
  from toy_update_lost_rewards_total[OF this] b have "toy_inv st3" by auto
  from toy_check_new_association_inv[OF this c] show ?thesis .
qed

lemma toy_example_run_state: "toy_example_run = Inr toy_example_state"
  by (simp add: toy_example_state_def toy_example_run_def toy_eval stats_eval)

lemma toy_example_reachable: "toy_reachable 3 toy_example_state"
proof -
  let ?e = "toy_env_of (\<lambda>b v. True) 0"
  from toy_example_run_state obtain s1 s2 where
    e1: "toy_execute 1 ?e [0] [0] MACOLSolution_init = Inr s1"
    and e2: "toy_execute 2 ?e [0] [0] (after_execute ?e [0] [0] [] s1) = Inr s2"
    and e3: "toy_execute 3 (toy_env_of (\<lambda>b v. False) 0) [0] [0] (after_execute ?e [0] [0] [] s2)
             = Inr toy_example_state"
    by (auto simp: toy_example_run_def split: sum.splits)
  have "toy_reachable 1 s1"
    by (rule toy_reachable_execute[OF toy_reachable_init _ e1]) simp
  then have "toy_reachable 1 (after_execute ?e [0] [0] [] s1)"
    by (rule toy_reachable_after)
  then have "toy_reachable 2 s2"
    by (rule toy_reachable_execute[OF _ _ e2]) simp
  then have "toy_reachable 2 (after_execute ?e [0] [0] [] s2)"
    by (rule toy_reachable_after)
  then show ?thesis
    by (rule toy_reachable_execute[OF _ _ e3]) simp
qed

lemma toy_example_state_facts:
  "q_value toy_example_state 0 = [(''[]'', 2)]"
  "bs_of toy_example_state 0 =
     \<lparr>serving_vehicle = None, total_serving_duration = 2, total_serving_count = 1,
      toy_serving_duration = 2, serving_inter_free = 2, toy_MAB_context = Some ''[]'',
      MACOL_backoff = (0, 0)\<rparr>"
  using toy_example_run_result
  by (simp_all add: toy_example_run_state tables_after_def bs_after_def)

section \<open>Mutual exclusion\<close>

lemma is_backoff_mono:
  "\<not> is_backoff sec t \<Longrightarrow> t \<le> t' \<Longrightarrow> \<not> is_backoff sec t'"
  by (auto simp: is_backoff_def split: prod.splits)

lemma exclusion_mono: "exclusion t st \<Longrightarrow> t \<le> t' \<Longrightarrow> exclusion t' st"
  unfolding exclusion_def using is_backoff_mono by blast

lemma exclusion_init: "exclusion t (CLMAB_init explore_first eps neighbours)"
  by (simp add: exclusion_def CLMAB_init_def MySector_init_def MyVehicle_init_def)

lemma exclusion_cong:
  "sector_of st' = sector_of st \<Longrightarrow> vehicle_of st' = vehicle_of st \<Longrightarrow>
   exclusion t st' = exclusion t st"
  by (simp add: exclusion_def)

lemma exclusion_lost_vehicle:
  assumes "exclusion t st" and "lost_vehicle st s t0 = Inr st1"
  shows "exclusion t st1"
proof -
  from assms(2) obtain v where v: "serving_node (sector_of st s) = Some v"
    and st1: "st1 = st\<lparr>vehicle_of := (vehicle_of st)(v := (vehicle_of st v)\<lparr>associated_sector := None\<rparr>),
             sector_of := (sector_of st)(s := (sector_of st s)\<lparr>serving_node := None\<rparr>)\<rparr>"
    by (auto simp: lost_vehicle_def split: option.splits)
  from assms(1) have b: "\<And>x. serving_node (sector_of st x) \<noteq> None \<Longrightarrow> \<not> is_backoff (sector_of st x) t"
    and c: "\<And>x w. associated_sector (vehicle_of st w) = Some x \<longleftrightarrow> serving_node (sector_of st x) = Some w"
    by (simp_all add: exclusion_def)
  from c[of v s] v have av: "associated_sector (vehicle_of st v) = Some s" by simp
  show ?thesis
    unfolding exclusion_def st1
  proof (intro conjI allI impI)
    fix x assume "serving_node (sector_of (st\<lparr>vehicle_of := (vehicle_of st)(v := (vehicle_of st v)\<lparr>associated_sector := None\<rparr>),
             sector_of := (sector_of st)(s := (sector_of st s)\<lparr>serving_node := None\<rparr>)\<rparr>) x) \<noteq> None"
    then have "x \<noteq> s" "serving_node (sector_of st x) \<noteq> None" by (auto split: if_splits)
    with b[of x]
    show "\<not> is_backoff (sector_of (st\<lparr>vehicle_of := (vehicle_of st)(v := (vehicle_of st v)\<lparr>associated_sector := None\<rparr>),
             sector_of := (sector_of st)(s := (sector_of st s)\<lparr>serving_node := None\<rparr>)\<rparr>) x) t"
      by simp
  next
    fix x w
    show "associated_sector (vehicle_of (st\<lparr>vehicle_of := (vehicle_of st)(v := (vehicle_of st v)\<lparr>associated_sector := None\<rparr>),
             sector_of := (sector_of st)(s := (sector_of st s)\<lparr>serving_node := None\<rparr>)\<rparr>) w) = Some x
          \<longleftrightarrow> serving_node (sector_of (st\<lparr>vehicle_of := (vehicle_of st)(v := (vehicle_of st v)\<lparr>associated_sector := None\<rparr>),
             sector_of := (sector_of st)(s := (sector_of st s)\<lparr>serving_node := None\<rparr>)\<rparr>) x) = Some w"
      using c[of w x] c[of v x] c[of w s] v av by auto
  qed
qed

lemma exclusion_check_current_association:
  "exclusion t st \<Longrightarrow> check_current_association env t0 secs st = Inr (lost, st') \<Longrightarrow>
   exclusion t st'"
proof (induction secs arbitrary: st lost)
  case Nil
  then show ?case by simp
next
  case (Cons s secs)
  show ?case
  proof (cases "serving_node (sector_of st s)")
    case None
    with Cons show ?thesis by simp
  next
    case (Some v)
    show ?thesis
    proof (cases "VehicleNode v \<notin> set (broadcast env s)")
      case True
      with Cons.prems Some obtain st1 lost' where
        l: "lost_vehicle st s t0 = Inr st1"
        and r: "check_current_association env t0 secs st1 = Inr (lost', st')"
        by (auto split: sum.splits)
      from Cons.IH[OF exclusion_lost_vehicle[OF Cons.prems(1) l] r] show ?thesis .
    next
      case False
      with Cons Some show ?thesis by simp
    qed
  qed
qed

lemma exclusion_serve:
  assumes e: "exclusion t st" and idle: "serving_node (sector_of st s) = None"
    and nb: "\<not> is_backoff (sector_of st s) t"
    and free: "associated_sector (vehicle_of st v) = None"
  shows "exclusion t (serve st s v t0 c)"
proof -
  from e have b: "\<And>x. serving_node (sector_of st x) \<noteq> None \<Longrightarrow> \<not> is_backoff (sector_of st x) t"
    and k: "\<And>x w. associated_sector (vehicle_of st w) = Some x \<longleftrightarrow> serving_node (sector_of st x) = Some w"
    by (simp_all add: exclusion_def)
  have sec: "sector_of (serve st s v t0 c) =
      (sector_of st)(s := (sector_of st s)\<lparr>serving_node := Some v, serving_duration := 0,
          serving_interference_free := 0,
          period_conn_count := period_conn_count (sector_of st s) + 1,
          MAB_context := Some c\<rparr>)"
    and veh: "vehicle_of (serve st s v t0 c) =
      (vehicle_of st)(v := (vehicle_of st v)\<lparr>associated_sector := Some s\<rparr>)"
    by (simp_all add: serve_def associate_vehicle_def Let_def)
  have nbs: "\<not> is_backoff ((sector_of st s)\<lparr>serving_node := Some v, serving_duration := 0,
          serving_interference_free := 0,
          period_conn_count := period_conn_count (sector_of st s) + 1,
          MAB_context := Some c\<rparr>) t"
    using nb by (simp add: is_backoff_def)
  show ?thesis
    unfolding exclusion_def sec veh
  proof (intro conjI allI impI)
    fix x
    assume "serving_node (((sector_of st)(s := (sector_of st s)\<lparr>serving_node := Some v, serving_duration := 0,
          serving_interference_free := 0,
          period_conn_count := period_conn_count (sector_of st s) + 1,
          MAB_context := Some c\<rparr>)) x) \<noteq> None"
    with b[of x] nbs
    show "\<not> is_backoff (((sector_of st)(s := (sector_of st s)\<lparr>serving_node := Some v, serving_duration := 0,
          serving_interference_free := 0,
          period_conn_count := period_conn_count (sector_of st s) + 1,
          MAB_context := Some c\<rparr>)) x) t"
      by (cases "x = s") simp_all
  next
    fix x w
    show "associated_sector (((vehicle_of st)(v := (vehicle_of st v)\<lparr>associated_sector := Some s\<rparr>)) w) = Some x
          \<longleftrightarrow> serving_node (((sector_of st)(s := (sector_of st s)\<lparr>serving_node := Some v, serving_duration := 0,
          serving_interference_free := 0,
          period_conn_count := period_conn_count (sector_of st s) + 1,
          MAB_context := Some c\<rparr>)) x) = Some w"
      using k[of w x] k[of v x] k[of w s] idle free by auto
  qed
qed

lemma exclusion_backoff:
  assumes e: "exclusion t st" and idle: "serving_node (sector_of st s) = None"
  shows "exclusion t (st\<lparr>sector_of := (sector_of st)(s := backoff (sector_of st s) t0 d)\<rparr>)"
  using assms by (auto simp: exclusion_def backoff_def)

lemma detection_list_free:
  "v \<in> set (detection_list env st s) \<Longrightarrow> associated_sector (vehicle_of st v) = None"
  by (auto simp: detection_list_def split: node.splits if_splits)

lemma exclusion_new_association:
  assumes e: "exclusion t st" and n: "new_association env t s st = Inr st'"
  shows "exclusion t st'"
proof (cases "serving_node (sector_of st s) = None \<and> \<not> is_backoff (sector_of st s) t \<and>
              detection_list env st s \<noteq> []")
  case False
  with n e show ?thesis by (auto simp: new_association_def Let_def split: if_splits)
next
  case True
  let ?dl = "detection_list env st s"
  let ?v = "?dl ! (random_choice env s mod length ?dl)"
  from True have "?v \<in> set ?dl" by simp
  then have free: "associated_sector (vehicle_of st ?v) = None" by (rule detection_list_free)
  from True have idle: "serving_node (sector_of st s) = None"
    and nb: "\<not> is_backoff (sector_of st s) t" by simp_all
  note srv = exclusion_serve[OF e idle nb free]
  note bk = exclusion_backoff[OF e idle]
  from n True srv bk show ?thesis
    by (auto simp: new_association_def Let_def split: if_splits sum.splits)
qed

lemma exclusion_check_new_association:
  "exclusion t st \<Longrightarrow> check_new_association env t secs st = Inr st' \<Longrightarrow> exclusion t st'"
proof (induction secs arbitrary: st)
  case Nil
  then show ?case by simp
next
  case (Cons s secs)
  then obtain st1 where n: "new_association env t s st = Inr st1"
    and r: "check_new_association env t secs st1 = Inr st'"
    by (auto split: sum.splits)
  from Cons.IH[OF exclusion_new_association[OF Cons.prems(1) n] r] show ?case .
qed

lemma exclusion_execute:
  assumes e: "exclusion t st" and le: "t \<le> t'" and x: "execute t' env secs st = Inr st'"
  shows "exclusion t' st'"
proof -
  from x obtain lost st2 st3 where
    a: "check_current_association env t' secs (exploration_schedule t' st) = Inr (lost, st2)"
    and b: "update_lost_rewards lost st2 = Inr st3"
    and c: "check_new_association env t' secs st3 = Inr st'"
    by (auto simp: execute_def split: sum.splits)
  have "exclusion t' (exploration_schedule t' st)"
    using exclusion_mono[OF e le] exclusion_cong[OF exploration_schedule_frame(3,4), of t' t' st]
    by simp
  from exclusion_check_current_association[OF this a] have "exclusion t' st2" .
  moreover from update_lost_rewards_frame[OF b]
  have "exclusion t' st3 = exclusion t' st2" by (intro exclusion_cong) simp_all
  ultimately have "exclusion t' st3" by simp
  from exclusion_check_new_association[OF this c] show ?thesis .
qed

lemma exclusion_collect_stats: "exclusion t st \<Longrightarrow> exclusion t (collect_stats d secs st)"
proof -
  have "exclusion t (collect_sector_stats d s x)" if "exclusion t x" for s x
    using that
    by (auto simp: exclusion_def collect_sector_stats_def Let_def is_backoff_def split: option.splits)
  then show "exclusion t st \<Longrightarrow> exclusion t (collect_stats d secs st)"
    unfolding collect_stats_def by (intro fold_inv[where P = "exclusion t"])
qed

lemma exclusion_check_interference:
  "exclusion t st \<Longrightarrow> exclusion t (check_interference env vs st)"
proof -
  have "exclusion t (check_vehicle_interference env v x)" if "exclusion t x" for v x
    using that
    by (auto simp: exclusion_def check_vehicle_interference_def split: option.splits)
  then show "exclusion t st \<Longrightarrow> exclusion t (check_interference env vs st)"
    unfolding check_interference_def by (intro fold_inv[where P = "exclusion t"])
qed

lemma reachable_exclusion: "reachable t st \<Longrightarrow> exclusion t st"
proof (induction rule: reachable.induct)
  case (reachable_init explore_first eps neighbours)
  show ?case by (rule exclusion_init)
next
  case (reachable_execute t st sim_time env all_sectors st')
  from exclusion_execute[OF reachable_execute.IH reachable_execute.hyps(2,3)] show ?case .
next
  case (reachable_stats t st duration all_sectors)
  then show ?case by (simp add: exclusion_collect_stats)
next
  case (reachable_interference t st env all_vehicles)
  then show ?case by (simp add: exclusion_check_interference)
qed

lemma new_association_timer:
  assumes "new_association env t s st = Inr st'"
    and "serving_node (sector_of st s) = None" and "serving_node (sector_of st' s) \<noteq> None"
  shows "\<not> is_backoff (sector_of st' s) t \<and> \<not> is_backoff (sector_of st s) t"
  using assms
  by (auto simp: new_association_def Let_def serve_def associate_vehicle_def is_backoff_def
      backoff_def split: if_splits sum.splits)

lemma toy_is_backoff_mono:
  "\<not> toy_is_backoff b t \<Longrightarrow> t \<le> t' \<Longrightarrow> \<not> toy_is_backoff b t'"
  by (auto simp: toy_is_backoff_def split: prod.splits)

lemma toy_exclusion_mono: "toy_exclusion t st \<Longrightarrow> t \<le> t' \<Longrightarrow> toy_exclusion t' st"
  unfolding toy_exclusion_def using toy_is_backoff_mono by blast

lemma toy_exclusion_init: "toy_exclusion t MACOLSolution_init"
  by (simp add: toy_exclusion_def MACOLSolution_init_def BaseStation_init_def Vehicle_init_def)

lemma toy_exclusion_cong:
  "bs_of st' = bs_of st \<Longrightarrow> toy_vehicle_of st' = toy_vehicle_of st \<Longrightarrow>
   toy_exclusion t st' = toy_exclusion t st"
  by (simp add: toy_exclusion_def)

lemma toy_exclusion_lost_vehicle:
  assumes "toy_exclusion t st" and "toy_lost_vehicle st b t0 = Inr st1"
  shows "toy_exclusion t st1"
proof -
  from assms(2) obtain v where v: "serving_vehicle (bs_of st b) = Some v"
    and bs1: "bs_of st1 = (bs_of st)
                     (b := (bs_of st b)
                        \<lparr>total_serving_duration :=
                           total_serving_duration (bs_of st b) + toy_serving_duration (bs_of st b),
                         total_serving_count := total_serving_count (bs_of st b) + 1,
                         serving_vehicle := None\<rparr>)"
    and vs1: "toy_vehicle_of st1 = (toy_vehicle_of st)
                     (v := (toy_vehicle_of st v)\<lparr>associated_bs := None\<rparr>)"
    by (auto simp: toy_lost_vehicle_def split: option.splits)
  from assms(1) have k: "\<And>x. serving_vehicle (bs_of st x) \<noteq> None \<Longrightarrow> \<not> toy_is_backoff (bs_of st x) t"
    and c: "\<And>x w. associated_bs (toy_vehicle_of st w) = Some x \<Longrightarrow> serving_vehicle (bs_of st x) = Some w"
    by (simp_all add: toy_exclusion_def)
  show ?thesis
    unfolding toy_exclusion_def bs1 vs1
  proof (intro conjI allI impI)
    fix x
    assume "serving_vehicle (((bs_of st)
                     (b := (bs_of st b)
                        \<lparr>total_serving_duration :=
                           total_serving_duration (bs_of st b) + toy_serving_duration (bs_of st b),
                         total_serving_count := total_serving_count (bs_of st b) + 1,
                         serving_vehicle := None\<rparr>)) x) \<noteq> None"
    then have "x \<noteq> b" "serving_vehicle (bs_of st x) \<noteq> None" by (auto split: if_splits)
    with k[of x]
    show "\<not> toy_is_backoff (((bs_of st)
                     (b := (bs_of st b)
                        \<lparr>total_serving_duration :=
                           total_serving_duration (bs_of st b) + toy_serving_duration (bs_of st b),
                         total_serving_count := total_serving_count (bs_of st b) + 1,
                         serving_vehicle := None\<rparr>)) x) t"
      by simp
  next
    fix x w
    assume a: "associated_bs (((toy_vehicle_of st)
                     (v := (toy_vehicle_of st v)\<lparr>associated_bs := None\<rparr>)) w) = Some x"
    then have wv: "w \<noteq> v" and aw: "associated_bs (toy_vehicle_of st w) = Some x"
      by (auto split: if_splits)
    from c[OF aw] have sx: "serving_vehicle (bs_of st x) = Some w" .
    with v wv have "x \<noteq> b" by auto
    with sx show "serving_vehicle (((bs_of st)
                     (b := (bs_of st b)
                        \<lparr>total_serving_duration :=
                           total_serving_duration (bs_of st b) + toy_serving_duration (bs_of st b),
                         total_serving_count := total_serving_count (bs_of st b) + 1,
                         serving_vehicle := None\<rparr>)) x) = Some w"
      by simp
  qed
qed

lemma toy_exclusion_check_current_association:
  "toy_exclusion t st \<Longrightarrow> toy_check_current_association env t0 bl st = Inr (lost, st') \<Longrightarrow>
   toy_exclusion t st'"
proof (induction bl arbitrary: st lost)
  case Nil
  then show ?case by simp
next
  case (Cons b bl)
  show ?case
  proof (cases "serving_vehicle (bs_of st b)")
    case None
    with Cons show ?thesis by simp
  next
    case (Some v)
    show ?thesis
    proof (cases "can_reach env b v")
      case False
      with Cons.prems Some obtain st1 lost' where
        l: "toy_lost_vehicle st b t0 = Inr st1"
        and r: "toy_check_current_association env t0 bl st1 = Inr (lost', st')"
        by (auto split: sum.splits)
      from Cons.IH[OF toy_exclusion_lost_vehicle[OF Cons.prems(1) l] r] show ?thesis .
    next
      case True
      with Cons Some show ?thesis by simp
    qed
  qed
qed

lemma toy_exclusion_serve:
  assumes e: "toy_exclusion t st" and idle: "serving_vehicle (bs_of st b) = None"
    and nb: "\<not> toy_is_backoff (bs_of st b) t"
    and free: "associated_bs (toy_vehicle_of st v) = None"
  shows "toy_exclusion t (toy_serve st b v t0 c)"
proof -
  from e have k: "\<And>x. serving_vehicle (bs_of st x) \<noteq> None \<Longrightarrow> \<not> toy_is_backoff (bs_of st x) t"
    and a: "\<And>x w. associated_bs (toy_vehicle_of st w) = Some x \<Longrightarrow> serving_vehicle (bs_of st x) = Some w"
    by (simp_all add: toy_exclusion_def)
  have sec: "bs_of (toy_serve st b v t0 c) =
      (bs_of st)(b := (bs_of st b)\<lparr>serving_vehicle := Some v, toy_serving_duration := 0,
          serving_inter_free := 0, toy_MAB_context := Some c\<rparr>)"
    and veh: "toy_vehicle_of (toy_serve st b v t0 c) =
      (toy_vehicle_of st)(v := (toy_vehicle_of st v)\<lparr>associated_bs := Some b\<rparr>)"
    by (simp_all add: toy_serve_def toy_associate_vehicle_def Let_def)
  have nbs: "\<not> toy_is_backoff ((bs_of st b)\<lparr>serving_vehicle := Some v, toy_serving_duration := 0,
          serving_inter_free := 0, toy_MAB_context := Some c\<rparr>) t"
    using nb by (simp add: toy_is_backoff_def)
  show ?thesis
    unfolding toy_exclusion_def sec veh
  proof (intro conjI allI impI)
    fix x
    assume "serving_vehicle (((bs_of st)(b := (bs_of st b)\<lparr>serving_vehicle := Some v, toy_serving_duration := 0,
          serving_inter_free := 0, toy_MAB_context := Some c\<rparr>)) x) \<noteq> None"
    with k[of x] nbs
    show "\<not> toy_is_backoff (((bs_of st)(b := (bs_of st b)\<lparr>serving_vehicle := Some v, toy_serving_duration := 0,
          serving_inter_free := 0, toy_MAB_context := Some c\<rparr>)) x) t"
      by (cases "x = b") simp_all
  next
    fix x w
    assume h: "associated_bs (((toy_vehicle_of st)(v := (toy_vehicle_of st v)\<lparr>associated_bs := Some b\<rparr>)) w) = Some x"
    show "serving_vehicle (((bs_of st)(b := (bs_of st b)\<lparr>serving_vehicle := Some v, toy_serving_duration := 0,
          serving_inter_free := 0, toy_MAB_context := Some c\<rparr>)) x) = Some w"
    proof (cases "w = v")
      case True
      with h show ?thesis by simp
    next
      case False
      with h have aw: "associated_bs (toy_vehicle_of st w) = Some x" by simp
      from a[OF aw] idle have "x \<noteq> b" by auto
      with a[OF aw] show ?thesis by simp
    qed
  qed
qed

lemma toy_exclusion_backoff:
  assumes e: "toy_exclusion t st" and idle: "serving_vehicle (bs_of st b) = None"
  shows "toy_exclusion t (st\<lparr>bs_of := (bs_of st)(b := toy_backoff (bs_of st b) t0 d)\<rparr>)"
  using assms by (auto simp: toy_exclusion_def toy_backoff_def)

lemma reachable_vehicles_free:
  "v \<in> set (reachable_vehicles env st b vl) \<Longrightarrow> associated_bs (toy_vehicle_of st v) = None"
  by (auto simp: reachable_vehicles_def is_connected_def)

lemma toy_exclusion_new_association:
  assumes e: "toy_exclusion t st" and n: "toy_new_association env t vl bl b st = Inr st'"
  shows "toy_exclusion t st'"
proof (cases "serving_vehicle (bs_of st b) = None \<and> \<not> toy_is_backoff (bs_of st b) t \<and>
              reachable_vehicles env st b vl \<noteq> []")
  case False
  with n e show ?thesis by (auto simp: toy_new_association_def Let_def split: if_splits)
next
  case True
  let ?rv = "reachable_vehicles env st b vl"
  let ?v = "?rv ! (toy_choice env b mod length ?rv)"
  from True have "?v \<in> set ?rv" by simp
  then have free: "associated_bs (toy_vehicle_of st ?v) = None" by (rule reachable_vehicles_free)
  from True have idle: "serving_vehicle (bs_of st b) = None"
    and nb: "\<not> toy_is_backoff (bs_of st b) t" by simp_all
  note srv = toy_exclusion_serve[OF e idle nb free]
  note bk = toy_exclusion_backoff[OF e idle]
  from n True srv bk show ?thesis
    by (auto simp: toy_new_association_def Let_def split: if_splits sum.splits)
qed

lemma toy_exclusion_check_new_association:
  "toy_exclusion t st \<Longrightarrow> toy_check_new_association env t vl bl bs st = Inr st' \<Longrightarrow>
   toy_exclusion t st'"
proof (induction bs arbitrary: st)
  case Nil
  then show ?case by simp
next
  case (Cons b bs)
  then obtain st1 where n: "toy_new_association env t vl bl b st = Inr st1"
    and r: "toy_check_new_association env t vl bl bs st1 = Inr st'"
    by (auto split: sum.splits)
  from Cons.IH[OF toy_exclusion_new_association[OF Cons.prems(1) n] r] show ?case .
qed

lemma toy_exclusion_execute:
  assumes e: "toy_exclusion t st" and le: "t \<le> t'" and x: "toy_execute t' env vl bl st = Inr st'"
  shows "toy_exclusion t' st'"
proof -
  from x obtain lost st2 st3 where
    a: "toy_check_current_association env t' bl (toy_exploration_schedule t' st) = Inr (lost, st2)"
    and b: "toy_update_lost_rewards lost st2 = Inr st3"
    and c: "toy_check_new_association env t' vl bl bl st3 = Inr st'"
    by (auto simp: toy_execute_def split: sum.splits)
  have "toy_exclusion t' (toy_exploration_schedule t' st)"
    using toy_exclusion_mono[OF e le]
      toy_exclusion_cong[OF toy_exploration_schedule_frame(3,4), of t' t' st]
    by simp
  from toy_exclusion_check_current_association[OF this a] have "toy_exclusion t' st2" .
  moreover from toy_update_lost_rewards_frame[OF b]
  have "toy_exclusion t' st3 = toy_exclusion t' st2" by (intro toy_exclusion_cong) simp_all
  ultimately have "toy_exclusion t' st3" by simp
  from toy_exclusion_check_new_association[OF this c] show ?thesis .
qed

lemma toy_exclusion_after_execute:
  assumes "toy_exclusion t st"
  shows "toy_exclusion t (after_execute env vl bl gone st)"
proof -
  have a: "toy_exclusion t (count_signals env bl v s)" if "toy_exclusion t s" for v s
    using that by (auto simp: toy_exclusion_def count_signals_def)
  have b: "toy_exclusion t (count_duration x s)" if "toy_exclusion t s" for x s
    using that
    by (auto simp: toy_exclusion_def count_duration_def Let_def toy_is_backoff_def split: option.splits)
  have c: "toy_exclusion t (reset_vehicle v s)" if "toy_exclusion t s" for v s
    using that by (auto simp: toy_exclusion_def reset_vehicle_def reset_def)
  show ?thesis
    unfolding after_execute_def
    by (intro fold_inv[where P = "toy_exclusion t"] a b c assms)
qed

lemma toy_reachable_exclusion: "toy_reachable t st \<Longrightarrow> toy_exclusion t st"
proof (induction rule: toy_reachable.induct)
  case toy_reachable_init
  show ?case by (rule toy_exclusion_init)
next
  case (toy_reachable_execute t st sim_time env vehicle_list bs_list st')
  from toy_exclusion_execute[OF toy_reachable_execute.IH toy_reachable_execute.hyps(2,3)]
  show ?case .
next
  case (toy_reachable_after t st env vehicle_list bs_list gone)
  then show ?case by (simp add: toy_exclusion_after_execute)
qed

lemma toy_new_association_timer:
  assumes "toy_new_association env t vl bl b st = Inr st'"
    and "serving_vehicle (bs_of st b) = None" and "serving_vehicle (bs_of st' b) \<noteq> None"
  shows "\<not> toy_is_backoff (bs_of st' b) t \<and> \<not> toy_is_backoff (bs_of st b) t"
  using assms
  by (auto simp: toy_new_association_def Let_def toy_serve_def toy_associate_vehicle_def
      toy_is_backoff_def toy_backoff_def split: if_splits sum.splits)

lemma serving_state_reachable: "reachable 1 serving_state"
proof -
  have "execute 1 (env_of (\<lambda>s. [VehicleNode 0]) 0) [0] (CLMAB_init 120 (5 / 100) (\<lambda>s. []))
        = Inr (serve (CLMAB_init 120 (5 / 100) (\<lambda>s. [])) 0 0 1 ''[]'')"
    by (simp add: clmab_eval)
  from reachable_execute[OF reachable_init _ this]
  have "reachable 1 (serve (CLMAB_init 120 (5 / 100) (\<lambda>s. [])) 0 0 1 ''[]'')" by simp
  then show ?thesis unfolding serving_state_def by (rule reachable_stats)
qed

lemma toy_serving_state_reachable: "toy_reachable 1 toy_serving_state"
proof -
  have "toy_execute 1 (toy_env_of (\<lambda>b v. True) 0) [0] [0] MACOLSolution_init
        = Inr (toy_serve MACOLSolution_init 0 0 1 ''[]'')"
    by (simp add: toy_eval)
  from toy_reachable_execute[OF toy_reachable_init _ this]
  have "toy_reachable 1 (toy_serve MACOLSolution_init 0 0 1 ''[]'')" by simp
  then show ?thesis unfolding toy_serving_state_def by (rule toy_reachable_after)
qed

section \<open>The context stored with a connection\<close>

lemma new_association_snapshot:
  assumes "new_association env t s st = Inr st'"
    and "serving_node (sector_of st s) = None" and "serving_node (sector_of st' s) \<noteq> None"
  shows "MAB_context (sector_of st' s) = Some (get_current_context st s)"
  using assms
  by (auto simp: new_association_def Let_def serve_def associate_vehicle_def backoff_def
      split: if_splits sum.splits)

lemma new_association_other:
  "new_association env t s st = Inr st' \<Longrightarrow> x \<noteq> s \<Longrightarrow> sector_of st' x = sector_of st x"
  by (auto simp: new_association_def Let_def serve_def associate_vehicle_def
      split: if_splits sum.splits)

lemma new_association_serving:
  "serving_node (sector_of st s) \<noteq> None \<Longrightarrow> new_association env t s st = Inr st"
  by (simp add: new_association_def)

lemma check_new_association_serving:
  "check_new_association env t secs st = Inr st' \<Longrightarrow> serving_node (sector_of st x) \<noteq> None \<Longrightarrow>
   sector_of st' x = sector_of st x"
proof (induction secs arbitrary: st)
  case Nil
  then show ?case by simp
next
  case (Cons s secs)
  then obtain st1 where n: "new_association env t s st = Inr st1"
    and r: "check_new_association env t secs st1 = Inr st'"
    by (auto split: sum.splits)
  have "sector_of st1 x = sector_of st x"
  proof (cases "x = s")
    case True
    with n Cons.prems(2) show ?thesis by (simp add: new_association_serving)
  next
    case False
    from new_association_other[OF n False] show ?thesis .
  qed
  with Cons.IH[OF r] Cons.prems(2) show ?case by simp
qed

lemma execute_keeps_connection:
  assumes e: "execute t env secs st = Inr st'"
    and s: "serving_node (sector_of st x) \<noteq> None" and nl: "\<not> lost_connection env st x"
  shows "sector_of st' x = sector_of st x"
proof -
  from e obtain lost st2 st3 where
    a: "check_current_association env t secs (exploration_schedule t st) = Inr (lost, st2)"
    and b: "update_lost_rewards lost st2 = Inr st3"
    and c: "check_new_association env t secs st3 = Inr st'"
    by (auto simp: execute_def split: sum.splits)
  note cs = check_current_association_sectors[OF a, of x,
      unfolded lost_connection_schedule exploration_schedule_frame]
  from cs have A: "sector_of st2 x = (sector_of st x)\<lparr>serving_node := serving_node (sector_of st2 x)\<rparr>"
    by blast
  from cs have "serving_node (sector_of st2 x) =
      (if x \<in> set secs \<and> lost_connection env st x then None else serving_node (sector_of st x))"
    by blast
  with nl have B: "serving_node (sector_of st2 x) = serving_node (sector_of st x)" by simp
  note A
  also have "(sector_of st x)\<lparr>serving_node := serving_node (sector_of st2 x)\<rparr> = sector_of st x"
    unfolding B by simp
  finally have "sector_of st2 x = sector_of st x" .
  with update_lost_rewards_frame[OF b] have 3: "sector_of st3 x = sector_of st x" by simp
  with check_new_association_serving[OF c, of x] s show ?thesis by simp
qed

lemma fold_keeps:
  assumes "\<And>y s. g (f y s) = g s"
  shows "g (fold f ys s) = g s"
  by (induction ys arbitrary: s) (simp_all add: assms)

lemma collect_stats_context:
  "MAB_context (sector_of (collect_stats d secs st) x) = MAB_context (sector_of st x)"
proof -
  have "MAB_context (sector_of (collect_sector_stats d y s) x) = MAB_context (sector_of s x)" for y s
    by (simp add: collect_sector_stats_def Let_def split: option.splits)
  then show ?thesis
    unfolding collect_stats_def
    by (rule fold_keeps[where g = "\<lambda>s. MAB_context (sector_of s x)"])
qed

lemma check_interference_sectors: "sector_of (check_interference env vs st) = sector_of st"
proof -
  have "sector_of (check_vehicle_interference env y s) = sector_of s" for y s
    by (simp add: check_vehicle_interference_def split: option.splits)
  then show ?thesis
    unfolding check_interference_def by (rule fold_keeps[where g = sector_of])
qed

lemma toy_new_association_snapshot:
  assumes "toy_new_association env t vl bl b st = Inr st'"
    and "serving_vehicle (bs_of st b) = None" and "serving_vehicle (bs_of st' b) \<noteq> None"
  shows "toy_MAB_context (bs_of st' b) = Some (toy_get_current_context st b bl)"
  using assms
  by (auto simp: toy_new_association_def Let_def toy_serve_def toy_associate_vehicle_def
      toy_backoff_def split: if_splits sum.splits)

lemma toy_new_association_other:
  "toy_new_association env t vl bl b st = Inr st' \<Longrightarrow> x \<noteq> b \<Longrightarrow> bs_of st' x = bs_of st x"
  by (auto simp: toy_new_association_def Let_def toy_serve_def toy_associate_vehicle_def
      split: if_splits sum.splits)

lemma toy_new_association_serving:
  "serving_vehicle (bs_of st b) \<noteq> None \<Longrightarrow> toy_new_association env t vl bl b st = Inr st"
  by (simp add: toy_new_association_def)

lemma toy_check_new_association_serving:
  "toy_check_new_association env t vl bl bs st = Inr st' \<Longrightarrow>
   serving_vehicle (bs_of st x) \<noteq> None \<Longrightarrow> bs_of st' x = bs_of st x"
proof (induction bs arbitrary: st)
  case Nil
  then show ?case by simp
next
  case (Cons b bs)
  then obtain st1 where n: "toy_new_association env t vl bl b st = Inr st1"
    and r: "toy_check_new_association env t vl bl bs st1 = Inr st'"
    by (auto split: sum.splits)
  have "bs_of st1 x = bs_of st x"
  proof (cases "x = b")
    case True
    with n Cons.prems(2) show ?thesis by (simp add: toy_new_association_serving)
  next
    case False
    from toy_new_association_other[OF n False] show ?thesis .
  qed
  with Cons.IH[OF r] Cons.prems(2) show ?case by simp
qed

lemma toy_check_current_association_kept:
  "toy_check_current_association env t bl st = Inr (lost, st') \<Longrightarrow>
   \<not> toy_lost_connection env st x \<Longrightarrow> bs_of st' x = bs_of st x"
proof (induction bl arbitrary: st lost)
  case Nil
  then show ?case by simp
next
  case (Cons b bl)
  show ?case
  proof (cases "serving_vehicle (bs_of st b)")
    case None
    with Cons show ?thesis by simp
  next
    case (Some v)
    show ?thesis
    proof (cases "can_reach env b v")
      case True
      with Cons Some show ?thesis by simp
    next
      case False
      let ?st1 = "st\<lparr>toy_vehicle_of := (toy_vehicle_of st)
                     (v := (toy_vehicle_of st v)\<lparr>associated_bs := None\<rparr>),
                  bs_of := (bs_of st)
                     (b := (bs_of st b)
                        \<lparr>total_serving_duration :=
                           total_serving_duration (bs_of st b) + toy_serving_duration (bs_of st b),
                         total_serving_count := total_serving_count (bs_of st b) + 1,
                         serving_vehicle := None\<rparr>)\<rparr>"
      from Cons.prems Some False obtain lost' where
        r: "toy_check_current_association env t bl ?st1 = Inr (lost', st')"
        by (auto simp: toy_lost_vehicle_Some split: sum.splits)
      from Cons.prems(2) Some False have xb: "x \<noteq> b" by (auto simp: toy_lost_connection_def)
      then have "\<not> toy_lost_connection env ?st1 x"
        using Cons.prems(2) by (simp add: toy_lost_connection_def)
      from Cons.IH[OF r this] xb show ?thesis by simp
    qed
  qed
qed

lemma toy_execute_keeps_connection:
  assumes e: "toy_execute t env vl bl st = Inr st'"
    and s: "serving_vehicle (bs_of st x) \<noteq> None" and nl: "\<not> toy_lost_connection env st x"
  shows "bs_of st' x = bs_of st x"
proof -
  from e obtain lost st2 st3 where
    a: "toy_check_current_association env t bl (toy_exploration_schedule t st) = Inr (lost, st2)"
    and b: "toy_update_lost_rewards lost st2 = Inr st3"
    and c: "toy_check_new_association env t vl bl bl st3 = Inr st'"
    by (auto simp: toy_execute_def split: sum.splits)
  from toy_check_current_association_kept[OF a, of x] nl
  have "bs_of st2 x = bs_of st x"
    by (simp add: toy_lost_connection_schedule toy_exploration_schedule_frame)
  with toy_update_lost_rewards_frame[OF b] have 3: "bs_of st3 x = bs_of st x" by simp
  with toy_check_new_association_serving[OF c, of x] s show ?thesis by simp
qed

lemma after_execute_context:
  "toy_MAB_context (bs_of (after_execute env vl bl gone st) x) = toy_MAB_context (bs_of st x)"
proof -
  have a: "toy_MAB_context (bs_of (count_signals env bl y s) x) = toy_MAB_context (bs_of s x)" for y s
    by (simp add: count_signals_def)
  have b: "toy_MAB_context (bs_of (count_duration y s) x) = toy_MAB_context (bs_of s x)" for y s
    by (simp add: count_duration_def Let_def split: option.splits)
  have c: "toy_MAB_context (bs_of (reset_vehicle y s) x) = toy_MAB_context (bs_of s x)" for y s
    by (simp add: reset_vehicle_def)
  show ?thesis
    unfolding after_execute_def
    by (simp add: fold_keeps[where g = "\<lambda>s. toy_MAB_context (bs_of s x)"] a b c)
qed

section \<open>The claims\<close>

text \<open>
  Claim C1, as amended. An agent that evaluates an acquisition decision in the exploitation
  branch and decides to back off arms its timer with \<^verbatim>\<open>start_time = sim_time\<close>. In the toy
  the duration is the base station's average serving duration,
  \<^verbatim>\<open>total_serving_duration / total_serving_count\<close> (for a base station that has completed a
  connection). In \<^verbatim>\<open>CLMAB\<close> the duration is \<^verbatim>\<open>this_threshold\<close>, the value of
  \<^verbatim>\<open>get_threshold(sector)\<close> that the decision was taken with; sectors keep no count of
  completed connections.
\<close>

theorem C1_backoff_timer:
  "(serving_node (sector_of st s) = None \<and> \<not> is_backoff (sector_of st s) t \<and>
    detection_list env st s \<noteq> [] \<and> \<not> random_random env s < exploration_rate st \<and>
    get_threshold st s = Inr th \<and>
    \<not> (get_reward st s (Some (get_current_context st s)) = 0 \<or>
       get_reward st s (Some (get_current_context st s)) > th) \<longrightarrow>
      (\<exists>st'. new_association env t s st = Inr st' \<and> MAB_backoff (sector_of st' s) = (t, th))) \<and>
   (serving_vehicle (bs_of tst b) = None \<and> \<not> toy_is_backoff (bs_of tst b) tt \<and>
    reachable_vehicles tenv tst b vl \<noteq> [] \<and> \<not> toy_random tenv b < exploration_rate tst \<and>
    \<not> (get_reward tst b (toy_get_current_context tst b bl) = 0 \<or>
       get_reward tst b (toy_get_current_context tst b bl) > toy_get_threshold tst b) \<and>
    total_serving_count (bs_of tst b) \<noteq> 0 \<longrightarrow>
      (\<exists>tst'. toy_new_association tenv tt vl bl b tst = Inr tst' \<and>
         MACOL_backoff (bs_of tst' b) =
           (tt, total_serving_duration (bs_of tst b) / real (total_serving_count (bs_of tst b)))))"
proof -
  have clmab: "\<exists>st'. new_association env t s st = Inr st' \<and> MAB_backoff (sector_of st' s) = (t, th)"
    if h: "serving_node (sector_of st s) = None" "\<not> is_backoff (sector_of st s) t"
      "detection_list env st s \<noteq> []" "\<not> random_random env s < exploration_rate st"
      "get_threshold st s = Inr th"
      and d: "\<not> (get_reward st s (Some (get_current_context st s)) = 0 \<or>
       get_reward st s (Some (get_current_context st s)) > th)"
    using new_association_exploit[OF h] d by (simp add: backoff_def)
  have toy: "\<exists>tst'. toy_new_association tenv tt vl bl b tst = Inr tst' \<and>
         MACOL_backoff (bs_of tst' b) =
           (tt, total_serving_duration (bs_of tst b) / real (total_serving_count (bs_of tst b)))"
    if h: "serving_vehicle (bs_of tst b) = None" "\<not> toy_is_backoff (bs_of tst b) tt"
      "reachable_vehicles tenv tst b vl \<noteq> []" "\<not> toy_random tenv b < exploration_rate tst"
      and d: "\<not> (get_reward tst b (toy_get_current_context tst b bl) = 0 \<or>
       get_reward tst b (toy_get_current_context tst b bl) > toy_get_threshold tst b)"
      and c: "total_serving_count (bs_of tst b) \<noteq> 0"
    using toy_new_association_exploit[OF h, of bl] d c
    by (simp add: toy_backoff_def get_average_serving_duration_def)
  from clmab toy show ?thesis by blast
qed

theorem C1_backoff_timer_witness:
  "serving_node (sector_of learned_state 0) = None \<and>
   \<not> is_backoff (sector_of learned_state 0) 200 \<and>
   detection_list (env_of (\<lambda>s. [VehicleNode 1]) (9 / 10)) learned_state 0 \<noteq> [] \<and>
   \<not> random_random (env_of (\<lambda>s. [VehicleNode 1]) (9 / 10)) 0 < exploration_rate learned_state \<and>
   get_threshold learned_state 0 = Inr (1 / 2) \<and>
   get_reward learned_state 0 (Some (get_current_context learned_state 0)) = 1 / 2 \<and>
   (\<exists>st'. new_association (env_of (\<lambda>s. [VehicleNode 1]) (9 / 10)) 200 0 learned_state = Inr st' \<and>
          MAB_backoff (sector_of st' 0) = (200, 1 / 2)) \<and>
   serving_vehicle (bs_of toy_learned_state 0) = None \<and>
   \<not> toy_is_backoff (bs_of toy_learned_state 0) 9000 \<and>
   reachable_vehicles (toy_env_of (\<lambda>b v. True) (9 / 10)) toy_learned_state 0 [0] \<noteq> [] \<and>
   \<not> toy_random (toy_env_of (\<lambda>b v. True) (9 / 10)) 0 < exploration_rate toy_learned_state \<and>
   get_reward toy_learned_state 0 (toy_get_current_context toy_learned_state 0 [0]) = 3 \<and>
   toy_get_threshold toy_learned_state 0 = 3 \<and>
   total_serving_count (bs_of toy_learned_state 0) \<noteq> 0 \<and>
   (\<exists>tst'. toy_new_association (toy_env_of (\<lambda>b v. True) (9 / 10)) 9000 [0] [0] 0 toy_learned_state = Inr tst' \<and>
          MACOL_backoff (bs_of tst' 0) = (9000, 5))"
proof -
  let ?e = "env_of (\<lambda>s. [VehicleNode 1]) (9 / 10)"
  let ?te = "toy_env_of (\<lambda>b v. True) (9 / 10)"
  have h: "serving_node (sector_of learned_state 0) = None"
    "\<not> is_backoff (sector_of learned_state 0) 200"
    "detection_list ?e learned_state 0 \<noteq> []"
    "\<not> random_random ?e 0 < exploration_rate learned_state"
    "get_threshold learned_state 0 = Inr (1 / 2)"
    "get_reward learned_state 0 (Some (get_current_context learned_state 0)) = 1 / 2"
    by (simp_all add: learned_state_def clmab_eval)
  have th: "serving_vehicle (bs_of toy_learned_state 0) = None"
    "\<not> toy_is_backoff (bs_of toy_learned_state 0) 9000"
    "reachable_vehicles ?te toy_learned_state 0 [0] \<noteq> []"
    "\<not> toy_random ?te 0 < exploration_rate toy_learned_state"
    "get_reward toy_learned_state 0 (toy_get_current_context toy_learned_state 0 [0]) = 3"
    "toy_get_threshold toy_learned_state 0 = 3"
    "total_serving_count (bs_of toy_learned_state 0) \<noteq> 0"
    "total_serving_duration (bs_of toy_learned_state 0) / real (total_serving_count (bs_of toy_learned_state 0)) = 5"
    by (simp_all add: toy_learned_state_def toy_eval)
  from C1_backoff_timer[where st = learned_state and s = 0 and t = 200 and env = ?e
      and th = "1 / 2" and tst = toy_learned_state and b = 0 and tt = 9000 and tenv = ?te
      and vl = "[0]" and bl = "[0]"] h th
  have "\<exists>st'. new_association ?e 200 0 learned_state = Inr st' \<and>
          MAB_backoff (sector_of st' 0) = (200, 1 / 2)"
    and "\<exists>tst'. toy_new_association ?te 9000 [0] [0] 0 toy_learned_state = Inr tst' \<and>
          MACOL_backoff (bs_of tst' 0) = (9000, 5)"
    by simp_all
  with h th show ?thesis by blast
qed

text \<open>
  The claim as stated fails in \<^verbatim>\<open>CLMAB\<close>: in the run \<open>example_run\<close> the sector has served
  one connection of 30 seconds, and at time 200 it backs off for a duration of 1 (its
  threshold, the mean reward), not 30.
\<close>

theorem C1_backoff_timer_counterexample:
  "map_sum id MAB_backoff (sector_after example_run 0) = Inr (200, 1) \<and>
   map_sum id total_duration (sector_after example_run 0) = Inr 30 \<and>
   map_sum id period_conn_count (sector_after example_run 0) = Inr 1 \<and>
   map_sum id armed_with_average (sector_after example_run 0) = Inr False"
  by (simp add: example_run_sector armed_with_average_def)

text \<open>
  Claim C2, as amended. Let the tables agree and the list of agents have no repetition.
  \<^verbatim>\<open>CLMAB.execute\<close> returns, and for every sector of the list that serves a node which did
  not reply: if its \<^verbatim>\<open>serving_duration\<close> is not zero, its tables after the call are those
  of exactly one call \<^verbatim>\<open>update_reward(sector, sector.MAB_context, serving_interference_free / serving_duration)\<close>
  on its tables before the call; if it is zero, its tables are unchanged. The tables of
  every other sector are unchanged. \<^verbatim>\<open>MAB_context\<close> is the context of the association: a
  sector that takes a node stores the encoder's string of that moment, and the string
  stays while the connection lasts (through a call of \<^verbatim>\<open>execute\<close> in which the node still
  replies, and through the other loops of \<^verbatim>\<open>do_mobility\<close>). In the toy,
  \<^verbatim>\<open>MACOLSolution.execute\<close> returns from every state that satisfies \<open>toy_inv\<close>, and for
  every base station of the list that cannot reach its vehicle any more, the tables after
  the call are those of exactly one call
  \<^verbatim>\<open>update_reward(bs, bs.MAB_context, bs.serving_inter_free)\<close>: the reward is the
  interference-free duration itself, and a connection of duration zero is recorded as
  well. The context is stored and kept in the same way.
\<close>

theorem C2_reward_on_lost_connection:
  "(tables_agree st \<and> distinct secs \<longrightarrow>
      (\<exists>st'. execute t env secs st = Inr st' \<and>
         (\<forall>x. if x \<in> set secs \<and> lost_connection env st x \<and> serving_duration (sector_of st x) \<noteq> 0
              then \<exists>st''. update_reward st x (MAB_context (sector_of st x))
                            (serving_interference_free (sector_of st x) / serving_duration (sector_of st x))
                          = Inr st'' \<and>
                          q_value st' x = q_value st'' x \<and> q_count st' x = q_count st'' x
              else q_value st' x = q_value st x \<and> q_count st' x = q_count st x))) \<and>
   (new_association enva ta sec sa = Inr sa' \<and> serving_node (sector_of sa sec) = None \<and>
    serving_node (sector_of sa' sec) \<noteq> None \<longrightarrow>
      MAB_context (sector_of sa' sec) = Some (get_current_context sa sec)) \<and>
   (execute tk envk secsk sk = Inr sk' \<and> serving_node (sector_of sk xk) \<noteq> None \<and>
    \<not> lost_connection envk sk xk \<longrightarrow>
      MAB_context (sector_of sk' xk) = MAB_context (sector_of sk xk) \<and>
      serving_node (sector_of sk' xk) = serving_node (sector_of sk xk)) \<and>
   MAB_context (sector_of (collect_stats dur secsd sd) xd) = MAB_context (sector_of sd xd) \<and>
   MAB_context (sector_of (check_interference envd vsd sd) xd) = MAB_context (sector_of sd xd) \<and>
   (toy_inv tst \<and> distinct bl \<longrightarrow>
      (\<exists>tst'. toy_execute tt tenv vl bl tst = Inr tst' \<and>
         (\<forall>x. if x \<in> set bl \<and> toy_lost_connection tenv tst x
              then \<exists>c tst''. toy_MAB_context (bs_of tst x) = Some c \<and>
                     update_reward tst x c (serving_inter_free (bs_of tst x)) = Inr tst'' \<and>
                     q_value tst' x = q_value tst'' x \<and> q_count tst' x = q_count tst'' x
              else q_value tst' x = q_value tst x \<and> q_count tst' x = q_count tst x))) \<and>
   (toy_new_association tenva tta vla bla b tsa = Inr tsa' \<and> serving_vehicle (bs_of tsa b) = None \<and>
    serving_vehicle (bs_of tsa' b) \<noteq> None \<longrightarrow>
      toy_MAB_context (bs_of tsa' b) = Some (toy_get_current_context tsa b bla)) \<and>
   (toy_execute ttk tenvk vlk blk tsk = Inr tsk' \<and> serving_vehicle (bs_of tsk bk) \<noteq> None \<and>
    \<not> toy_lost_connection tenvk tsk bk \<longrightarrow>
      toy_MAB_context (bs_of tsk' bk) = toy_MAB_context (bs_of tsk bk) \<and>
      serving_vehicle (bs_of tsk' bk) = serving_vehicle (bs_of tsk bk)) \<and>
   toy_MAB_context (bs_of (after_execute tenvd vld bld gone tsd) bd) = toy_MAB_context (bs_of tsd bd)"
proof -
  have clmab: "\<exists>st'. execute t env secs st = Inr st' \<and>
         (\<forall>x. if x \<in> set secs \<and> lost_connection env st x \<and> serving_duration (sector_of st x) \<noteq> 0
              then \<exists>st''. update_reward st x (MAB_context (sector_of st x))
                            (serving_interference_free (sector_of st x) / serving_duration (sector_of st x))
                          = Inr st'' \<and>
                          q_value st' x = q_value st'' x \<and> q_count st' x = q_count st'' x
              else q_value st' x = q_value st x \<and> q_count st' x = q_count st x)"
    if ag: "tables_agree st" and d: "distinct secs"
  proof -
    from execute_total[OF ag] obtain st' where e: "execute t env secs st = Inr st'" by blast
    from execute_tables[OF d e] e show ?thesis by blast
  qed
  have toy: "\<exists>tst'. toy_execute tt tenv vl bl tst = Inr tst' \<and>
         (\<forall>x. if x \<in> set bl \<and> toy_lost_connection tenv tst x
              then \<exists>c tst''. toy_MAB_context (bs_of tst x) = Some c \<and>
                     update_reward tst x c (serving_inter_free (bs_of tst x)) = Inr tst'' \<and>
                     q_value tst' x = q_value tst'' x \<and> q_count tst' x = q_count tst'' x
              else q_value tst' x = q_value tst x \<and> q_count tst' x = q_count tst x)"
    if i: "toy_inv tst" and d: "distinct bl"
  proof -
    from toy_execute_total[OF i] obtain tst' where e: "toy_execute tt tenv vl bl tst = Inr tst'"
      by blast
    from toy_execute_tables[OF i d e] e show ?thesis by blast
  qed
  have keep: "MAB_context (sector_of sk' xk) = MAB_context (sector_of sk xk) \<and>
      serving_node (sector_of sk' xk) = serving_node (sector_of sk xk)"
    if "execute tk envk secsk sk = Inr sk'" "serving_node (sector_of sk xk) \<noteq> None"
      "\<not> lost_connection envk sk xk"
    using execute_keeps_connection[OF that] by simp
  have tkeep: "toy_MAB_context (bs_of tsk' bk) = toy_MAB_context (bs_of tsk bk) \<and>
      serving_vehicle (bs_of tsk' bk) = serving_vehicle (bs_of tsk bk)"
    if "toy_execute ttk tenvk vlk blk tsk = Inr tsk'" "serving_vehicle (bs_of tsk bk) \<noteq> None"
      "\<not> toy_lost_connection tenvk tsk bk"
    using toy_execute_keeps_connection[OF that] by simp
  have stats: "MAB_context (sector_of (collect_stats dur secsd sd) xd) = MAB_context (sector_of sd xd)"
    "MAB_context (sector_of (check_interference envd vsd sd) xd) = MAB_context (sector_of sd xd)"
    "toy_MAB_context (bs_of (after_execute tenvd vld bld gone tsd) bd) = toy_MAB_context (bs_of tsd bd)"
    by (simp_all add: collect_stats_context check_interference_sectors after_execute_context)
  from clmab toy keep tkeep stats
    new_association_snapshot[of enva ta sec sa sa']
    toy_new_association_snapshot[of tenva tta vla bla b tsa tsa']
  show ?thesis by blast
qed

text \<open>
  A sector that loses its vehicle after 30 seconds without interference records the
  reward 1 for the context \<^verbatim>\<open>[]\<close>; a base station of the toy that loses its vehicle after
  one tick records the reward 1, its interference-free duration.
\<close>

theorem C2_reward_on_lost_connection_witness:
  "tables_agree serving_state \<and> distinct [0::nat] \<and>
   lost_connection (env_of (\<lambda>s. []) 0) serving_state 0 \<and>
   serving_duration (sector_of serving_state 0) = 30 \<and>
   serving_interference_free (sector_of serving_state 0) = 30 \<and>
   MAB_context (sector_of serving_state 0) = Some ''[]'' \<and>
   (\<exists>st' st''. execute 31 (env_of (\<lambda>s. []) 0) [0] serving_state = Inr st' \<and>
      update_reward serving_state 0 (Some ''[]'') 1 = Inr st'' \<and>
      q_value st' 0 = q_value st'' 0 \<and> q_count st' 0 = q_count st'' 0 \<and>
      q_value st' 1 = q_value serving_state 1) \<and>
   new_association (env_of (\<lambda>s. [VehicleNode 0]) 0) 1 0 (CLMAB_init 120 (5 / 100) (\<lambda>s. []))
     = Inr (serve (CLMAB_init 120 (5 / 100) (\<lambda>s. [])) 0 0 1 ''[]'') \<and>
   serving_node (sector_of (CLMAB_init 120 (5 / 100) (\<lambda>s. [])) 0) = None \<and>
   serving_node (sector_of (serve (CLMAB_init 120 (5 / 100) (\<lambda>s. [])) 0 0 1 ''[]'') 0) = Some 0 \<and>
   get_current_context (CLMAB_init 120 (5 / 100) (\<lambda>s. [])) 0 = ''[]'' \<and>
   MAB_context (sector_of (serve (CLMAB_init 120 (5 / 100) (\<lambda>s. [])) 0 0 1 ''[]'') 0) = Some ''[]'' \<and>
   execute 2 (env_of (\<lambda>s. [VehicleNode 0]) 0) [0] serving_state
     = Inr (exploration_schedule 2 serving_state) \<and>
   \<not> lost_connection (env_of (\<lambda>s. [VehicleNode 0]) 0) serving_state 0 \<and>
   MAB_context (sector_of (exploration_schedule 2 serving_state) 0) = Some ''[]'' \<and>
   toy_inv toy_serving_state \<and>
   toy_lost_connection (toy_env_of (\<lambda>b v. False) 0) toy_serving_state 0 \<and>
   serving_inter_free (bs_of toy_serving_state 0) = 1 \<and>
   (\<exists>tst' tst''. toy_execute 2 (toy_env_of (\<lambda>b v. False) 0) [0] [0] toy_serving_state = Inr tst' \<and>
      update_reward toy_serving_state 0 ''[]'' 1 = Inr tst'' \<and>
      q_value tst' 0 = q_value tst'' 0 \<and> q_count tst' 0 = q_count tst'' 0) \<and>
   toy_new_association (toy_env_of (\<lambda>b v. True) 0) 1 [0] [0] 0 MACOLSolution_init
     = Inr (toy_serve MACOLSolution_init 0 0 1 ''[]'') \<and>
   serving_vehicle (bs_of MACOLSolution_init 0) = None \<and>
   serving_vehicle (bs_of (toy_serve MACOLSolution_init 0 0 1 ''[]'') 0) = Some 0 \<and>
   toy_get_current_context MACOLSolution_init 0 [0] = ''[]'' \<and>
   toy_MAB_context (bs_of (toy_serve MACOLSolution_init 0 0 1 ''[]'') 0) = Some ''[]'' \<and>
   toy_execute 2 (toy_env_of (\<lambda>b v. True) 0) [0] [0] toy_serving_state
     = Inr (toy_exploration_schedule 2 toy_serving_state) \<and>
   \<not> toy_lost_connection (toy_env_of (\<lambda>b v. True) 0) toy_serving_state 0 \<and>
   toy_MAB_context (bs_of (toy_exploration_schedule 2 toy_serving_state) 0) = Some ''[]''"
proof -
  let ?i = "CLMAB_init 120 (5 / 100) (\<lambda>s. [])"
  let ?e = "env_of (\<lambda>s. []) 0"
  let ?e1 = "env_of (\<lambda>s. [VehicleNode 0]) 0"
  let ?te = "toy_env_of (\<lambda>b v. False) 0"
  let ?te1 = "toy_env_of (\<lambda>b v. True) 0"
  have h: "tables_agree serving_state" "distinct [0::nat]"
    by (simp_all add: tables_agree_def serving_state_tables)
  have l: "lost_connection ?e serving_state 0"
    "serving_duration (sector_of serving_state 0) = 30"
    "serving_interference_free (sector_of serving_state 0) = 30"
    "MAB_context (sector_of serving_state 0) = Some ''[]''"
    by (simp_all add: lost_connection_def serving_state_sector env_of_def)
  have n: "new_association ?e1 1 0 ?i = Inr (serve ?i 0 0 1 ''[]'')"
    "serving_node (sector_of ?i 0) = None"
    "serving_node (sector_of (serve ?i 0 0 1 ''[]'') 0) = Some 0"
    "get_current_context ?i 0 = ''[]''"
    by (simp_all add: clmab_eval)
  have k: "execute 2 ?e1 [0] serving_state = Inr (exploration_schedule 2 serving_state)"
    "\<not> lost_connection ?e1 serving_state 0"
    "serving_node (sector_of serving_state 0) = Some 0"
    by (simp_all add: execute_def lost_connection_def serving_state_sector env_of_def
        exploration_schedule_frame new_association_def)
  have th: "toy_inv toy_serving_state" by (rule toy_serving_state_inv)
  have tl: "toy_lost_connection ?te toy_serving_state 0"
    "serving_inter_free (bs_of toy_serving_state 0) = 1"
    "toy_MAB_context (bs_of toy_serving_state 0) = Some ''[]''"
    by (simp_all add: toy_lost_connection_def toy_serving_state_bs toy_env_of_def)
  have tn: "toy_new_association ?te1 1 [0] [0] 0 MACOLSolution_init
     = Inr (toy_serve MACOLSolution_init 0 0 1 ''[]'')"
    "serving_vehicle (bs_of MACOLSolution_init 0) = None"
    "serving_vehicle (bs_of (toy_serve MACOLSolution_init 0 0 1 ''[]'') 0) = Some 0"
    "toy_get_current_context MACOLSolution_init 0 [0] = ''[]''"
    by (simp_all add: toy_eval)
  have tk: "toy_execute 2 ?te1 [0] [0] toy_serving_state = Inr (toy_exploration_schedule 2 toy_serving_state)"
    "\<not> toy_lost_connection ?te1 toy_serving_state 0"
    "serving_vehicle (bs_of toy_serving_state 0) = Some 0"
    by (simp_all add: toy_execute_def toy_lost_connection_def toy_serving_state_bs toy_env_of_def
        toy_exploration_schedule_frame toy_new_association_def)
  note c = C2_reward_on_lost_connection[where st = serving_state and secs = "[0]" and t = 31
      and env = ?e and enva = ?e1 and ta = 1 and sec = 0 and sa = ?i
      and sa' = "serve ?i 0 0 1 ''[]''" and tk = 2 and envk = ?e1 and secsk = "[0]"
      and sk = serving_state and sk' = "exploration_schedule 2 serving_state" and xk = 0
      and tst = toy_serving_state and bl = "[0]" and tt = 2 and tenv = ?te and vl = "[0]"
      and tenva = ?te1 and tta = 1 and vla = "[0]" and bla = "[0]" and b = 0
      and tsa = MACOLSolution_init and tsa' = "toy_serve MACOLSolution_init 0 0 1 ''[]''"
      and ttk = 2 and tenvk = ?te1 and vlk = "[0]" and blk = "[0]" and tsk = toy_serving_state
      and tsk' = "toy_exploration_schedule 2 toy_serving_state" and bk = 0]
  note c1 = c[THEN conjunct1]
  note c2 = c[THEN conjunct2, THEN conjunct1]
  note c3 = c[THEN conjunct2, THEN conjunct2, THEN conjunct1]
  note c6 = c[THEN conjunct2, THEN conjunct2, THEN conjunct2, THEN conjunct2, THEN conjunct2,
      THEN conjunct1]
  note c7 = c[THEN conjunct2, THEN conjunct2, THEN conjunct2, THEN conjunct2, THEN conjunct2,
      THEN conjunct2, THEN conjunct1]
  note c8 = c[THEN conjunct2, THEN conjunct2, THEN conjunct2, THEN conjunct2, THEN conjunct2,
      THEN conjunct2, THEN conjunct2, THEN conjunct1]
  from c1 h c6 th
  obtain st' tst' where
    e: "execute 31 ?e [0] serving_state = Inr st'"
    and a: "\<forall>x. if x \<in> set [0] \<and> lost_connection ?e serving_state x \<and>
                   serving_duration (sector_of serving_state x) \<noteq> 0
              then \<exists>st''. update_reward serving_state x (MAB_context (sector_of serving_state x))
                            (serving_interference_free (sector_of serving_state x)
                               / serving_duration (sector_of serving_state x))
                          = Inr st'' \<and>
                          q_value st' x = q_value st'' x \<and> q_count st' x = q_count st'' x
              else q_value st' x = q_value serving_state x \<and> q_count st' x = q_count serving_state x"
    and te: "toy_execute 2 ?te [0] [0] toy_serving_state = Inr tst'"
    and ta: "\<forall>x. if x \<in> set [0] \<and> toy_lost_connection ?te toy_serving_state x
              then \<exists>c tst''. toy_MAB_context (bs_of toy_serving_state x) = Some c \<and>
                     update_reward toy_serving_state x c (serving_inter_free (bs_of toy_serving_state x)) = Inr tst'' \<and>
                     q_value tst' x = q_value tst'' x \<and> q_count tst' x = q_count tst'' x
              else q_value tst' x = q_value toy_serving_state x \<and> q_count tst' x = q_count toy_serving_state x"
    by blast
  from a[rule_format, of 0] l obtain st'' where
    u: "update_reward serving_state 0 (Some ''[]'') 1 = Inr st''"
    "q_value st' 0 = q_value st'' 0" "q_count st' 0 = q_count st'' 0"
    by auto
  from a[rule_format, of 1] have o: "q_value st' 1 = q_value serving_state 1"
    by simp
  from ta[rule_format, of 0] tl obtain tst'' where
    tu: "update_reward toy_serving_state 0 ''[]'' 1 = Inr tst''"
    "q_value tst' 0 = q_value tst'' 0" "q_count tst' 0 = q_count tst'' 0"
    by auto
  from c2 n have s1: "MAB_context (sector_of (serve ?i 0 0 1 ''[]'') 0) = Some ''[]''"
    by (metis option.distinct(1))
  from c3 k l(4) have s2: "MAB_context (sector_of (exploration_schedule 2 serving_state) 0) = Some ''[]''"
    by (metis option.distinct(1))
  from c7 tn have s3: "toy_MAB_context (bs_of (toy_serve MACOLSolution_init 0 0 1 ''[]'') 0) = Some ''[]''"
    by (metis option.distinct(1))
  from c8 tk tl(3)
  have s4: "toy_MAB_context (bs_of (toy_exploration_schedule 2 toy_serving_state) 0) = Some ''[]''"
    by (metis option.distinct(1))
  have 1: "\<exists>st' st''. execute 31 ?e [0] serving_state = Inr st' \<and>
      update_reward serving_state 0 (Some ''[]'') 1 = Inr st'' \<and>
      q_value st' 0 = q_value st'' 0 \<and> q_count st' 0 = q_count st'' 0 \<and>
      q_value st' 1 = q_value serving_state 1"
    using e u o by blast
  have 2: "\<exists>tst' tst''. toy_execute 2 ?te [0] [0] toy_serving_state = Inr tst' \<and>
      update_reward toy_serving_state 0 ''[]'' 1 = Inr tst'' \<and>
      q_value tst' 0 = q_value tst'' 0 \<and> q_count tst' 0 = q_count tst'' 0"
    using te tu by blast
  show ?thesis
    using h l 1 n s1 k(1,2) s2 th tl(1,2) 2 tn s3 tk(1,2) s4
    by (intro conjI) assumption+
qed

text \<open>
  The claim as stated fails in the toy. In \<open>toy_example_run\<close> the connection lasted 2
  ticks, all of them free of interference: the reward recorded is 2, not 2/2. And a
  connection taken at tick 1 and lost at tick 2, of duration 0, is recorded with reward 0
  and count 1.
\<close>

theorem C2_reward_on_lost_connection_counterexample:
  "tables_after toy_example_run 0 = Inr ([(''[]'', 2)], [(''[]'', 1)]) \<and>
   map_sum id toy_serving_duration (bs_after toy_example_run 0) = Inr 2 \<and>
   map_sum id serving_inter_free (bs_after toy_example_run 0) = Inr 2 \<and>
   tables_after
     (toy_run [(1, toy_env_of (\<lambda>b v. True) 0), (2, toy_env_of (\<lambda>b v. False) 0)] [0] [0]
        MACOLSolution_init) 0 = Inr ([(''[]'', 0)], [(''[]'', 1)]) \<and>
   map_sum id toy_serving_duration
     (bs_after (toy_run [(1, toy_env_of (\<lambda>b v. True) 0), (2, toy_env_of (\<lambda>b v. False) 0)] [0] [0]
        MACOLSolution_init) 0) = Inr 0"
proof -
  have "tables_after
     (toy_run [(1, toy_env_of (\<lambda>b v. True) 0), (2, toy_env_of (\<lambda>b v. False) 0)] [0] [0]
        MACOLSolution_init) 0 = Inr ([(''[]'', 0)], [(''[]'', 1)])"
    by (simp add: tables_after_def toy_eval)
  moreover have "map_sum id toy_serving_duration
     (bs_after (toy_run [(1, toy_env_of (\<lambda>b v. True) 0), (2, toy_env_of (\<lambda>b v. False) 0)] [0] [0]
        MACOLSolution_init) 0) = Inr 0"
    by (simp add: bs_after_def toy_eval)
  ultimately show ?thesis by (simp add: toy_example_run_result)
qed

text \<open>
  Claim C3, as amended. In \<^verbatim>\<open>CLMAB.execute\<close> the exploration rate of a call at time \<open>t\<close> is
  exactly 1 when \<open>t < exploration_time\<close> and exactly \<^verbatim>\<open>epsilon\<close> when
  \<open>t \<ge> exploration_time\<close>, the boundary included; no later block of \<^verbatim>\<open>execute\<close> changes it,
  so it is the rate of every decision of the call and of the returned state. In
  \<^verbatim>\<open>MACOLSolution.execute\<close>, for a call that starts in full exploration with rate 1, the
  rate is 1 when \<open>t \<le> exploration_time\<close> and \<^verbatim>\<open>epsilon\<close> when \<open>t > exploration_time\<close>: at the
  boundary \<open>t = exploration_time\<close> it is still 1.
\<close>

theorem C3_exploration_rate:
  "exploration_rate (exploration_schedule t st) = (if t < exploration_time st then 1 else gvar_epsilon st) \<and>
   (execute t env secs st = Inr st' \<longrightarrow>
      exploration_rate st' = (if t < exploration_time st then 1 else gvar_epsilon st)) \<and>
   (is_full_exploration tst \<and> exploration_rate tst = 1 \<longrightarrow>
      exploration_rate (toy_exploration_schedule tt tst)
        = (if tt \<le> exploration_time tst then 1 else epsilon tst)) \<and>
   (is_full_exploration tst \<and> exploration_rate tst = 1 \<and>
    toy_execute tt tenv vl bl tst = Inr tst' \<longrightarrow>
      exploration_rate tst' = (if tt \<le> exploration_time tst then 1 else epsilon tst))"
proof -
  have a: "exploration_rate (exploration_schedule t st)
           = (if t < exploration_time st then 1 else gvar_epsilon st)"
    by (simp add: exploration_schedule_def)
  have b: "is_full_exploration tst \<and> exploration_rate tst = 1 \<longrightarrow>
      exploration_rate (toy_exploration_schedule tt tst)
        = (if tt \<le> exploration_time tst then 1 else epsilon tst)"
    by (simp add: toy_exploration_schedule_def)
  from a b show ?thesis
    by (auto dest: execute_schedule(1) toy_execute_schedule(1))
qed

theorem C3_exploration_rate_witness:
  "execute 120 (env_of (\<lambda>s. []) 0) [0] (CLMAB_init 120 (5 / 100) (\<lambda>s. []))
     = Inr (exploration_schedule 120 (CLMAB_init 120 (5 / 100) (\<lambda>s. []))) \<and>
   exploration_rate (exploration_schedule 120 (CLMAB_init 120 (5 / 100) (\<lambda>s. []))) = 5 / 100 \<and>
   is_full_exploration MACOLSolution_init \<and> exploration_rate MACOLSolution_init = 1 \<and>
   toy_execute 8001 (toy_env_of (\<lambda>b v. False) 0) [0] [0] MACOLSolution_init
     = Inr (toy_exploration_schedule 8001 MACOLSolution_init) \<and>
   exploration_rate (toy_exploration_schedule 8001 MACOLSolution_init) = 5 / 100"
proof -
  let ?i = "CLMAB_init 120 (5 / 100) (\<lambda>s. [])"
  have e: "execute 120 (env_of (\<lambda>s. []) 0) [0] ?i = Inr (exploration_schedule 120 ?i)"
    by (simp add: clmab_eval)
  have f: "is_full_exploration MACOLSolution_init \<and> exploration_rate MACOLSolution_init = 1"
    by (simp add: MACOLSolution_init_def)
  have g: "toy_execute 8001 (toy_env_of (\<lambda>b v. False) 0) [0] [0] MACOLSolution_init
     = Inr (toy_exploration_schedule 8001 MACOLSolution_init)"
    by (simp add: toy_eval)
  from C3_exploration_rate[where t = 120 and st = ?i and env = "env_of (\<lambda>s. []) 0"
      and secs = "[0]" and st' = "exploration_schedule 120 ?i" and tst = MACOLSolution_init
      and tt = 8001 and tenv = "toy_env_of (\<lambda>b v. False) 0" and vl = "[0]" and bl = "[0]"
      and tst' = "toy_exploration_schedule 8001 MACOLSolution_init"] e f g
  have "exploration_rate (exploration_schedule 120 ?i) = 5 / 100"
    and "exploration_rate (toy_exploration_schedule 8001 MACOLSolution_init) = 5 / 100"
    by (simp_all add: CLMAB_init_def MACOLSolution_init_def)
  with e f g show ?thesis by blast
qed

text \<open>
  The claim as stated fails in the toy at the boundary: a call at tick 8000, with
  \<^verbatim>\<open>exploration_time = 8000\<close>, leaves the rate at 1, not at \<^verbatim>\<open>epsilon = 0.05\<close>.
\<close>

theorem C3_exploration_rate_counterexample:
  "toy_execute 8000 (toy_env_of (\<lambda>b v. False) 0) [0] [0] MACOLSolution_init = Inr MACOLSolution_init \<and>
   exploration_time MACOLSolution_init = 8000 \<and>
   exploration_rate MACOLSolution_init = 1 \<and>
   epsilon MACOLSolution_init = 5 / 100"
  by (simp add: toy_eval)

text \<open>
  Claim C4, as amended. In \<^verbatim>\<open>MACOLSolution\<close>, once a call of \<^verbatim>\<open>execute\<close> has happened at a
  time past \<^verbatim>\<open>exploration_time\<close> (or the flag \<^verbatim>\<open>is_full_exploration\<close> is already off, with the
  rate at \<^verbatim>\<open>epsilon\<close>), the rate is \<^verbatim>\<open>epsilon\<close> and the flag is off after that call and after
  every later sequence of calls, whatever their times. In \<^verbatim>\<open>CLMAB\<close>, after a call at a time
  \<open>\<ge> exploration_time\<close> the flag \<^verbatim>\<open>is_exploration_over\<close> is on and stays on; the rate,
  however, is set by every call from its own time: after a later sequence of calls it is 1
  if the last call's time is below \<^verbatim>\<open>exploration_time\<close> and \<^verbatim>\<open>epsilon\<close> otherwise.
\<close>

theorem C4_one_way_transition:
  "((is_full_exploration tst_a \<and> exploration_time tst_a < tt \<or>
     \<not> is_full_exploration tst_a \<and> exploration_rate tst_a = epsilon tst_a) \<and>
    toy_execute tt tenv vl bl tst_a = Inr tst_b \<and> toy_run tepochs vl bl tst_b = Inr tst_c \<longrightarrow>
      exploration_rate tst_b = epsilon tst_a \<and> exploration_rate tst_c = epsilon tst_a \<and>
      \<not> is_full_exploration tst_b \<and> \<not> is_full_exploration tst_c) \<and>
   (exploration_time st_a \<le> t \<and> execute t env secs st_a = Inr st_b \<and>
    run epochs secs st_b = Inr st_c \<longrightarrow>
      exploration_rate st_b = gvar_epsilon st_a \<and> is_exploration_over st_b \<and> is_exploration_over st_c \<and>
      (epochs \<noteq> [] \<longrightarrow> exploration_rate st_c =
         (if fst (last epochs) < exploration_time st_a then 1 else gvar_epsilon st_a)))"
proof -
  have toy: "exploration_rate tst_b = epsilon tst_a \<and> exploration_rate tst_c = epsilon tst_a \<and>
      \<not> is_full_exploration tst_b \<and> \<not> is_full_exploration tst_c"
    if h: "is_full_exploration tst_a \<and> exploration_time tst_a < tt \<or>
           \<not> is_full_exploration tst_a \<and> exploration_rate tst_a = epsilon tst_a"
      and e: "toy_execute tt tenv vl bl tst_a = Inr tst_b"
      and r: "toy_run tepochs vl bl tst_b = Inr tst_c"
  proof -
    from toy_execute_schedule[OF e] h
    have 1: "\<not> is_full_exploration tst_b" "exploration_rate tst_b = epsilon tst_a"
      by (auto simp: toy_exploration_schedule_def)
    with toy_run_after_window[OF r 1(1)] show ?thesis by simp
  qed
  have main: "exploration_rate st_b = gvar_epsilon st_a \<and> is_exploration_over st_b \<and> is_exploration_over st_c \<and>
      (epochs \<noteq> [] \<longrightarrow> exploration_rate st_c =
         (if fst (last epochs) < exploration_time st_a then 1 else gvar_epsilon st_a))"
    if h: "exploration_time st_a \<le> t" and e: "execute t env secs st_a = Inr st_b"
      and r: "run epochs secs st_b = Inr st_c"
  proof -
    from execute_schedule[OF e] h
    have 1: "is_exploration_over st_b" "exploration_rate st_b = gvar_epsilon st_a"
      "exploration_time st_b = exploration_time st_a" "gvar_epsilon st_b = gvar_epsilon st_a"
      by (auto simp: exploration_schedule_def)
    with run_last_epoch[OF r 1(1)] show ?thesis by simp
  qed
  from toy main show ?thesis by blast
qed

theorem C4_one_way_transition_witness:
  "is_full_exploration MACOLSolution_init \<and> exploration_time MACOLSolution_init < 8001 \<and>
   toy_execute 8001 (toy_env_of (\<lambda>b v. False) 0) [0] [0] MACOLSolution_init
     = Inr (toy_exploration_schedule 8001 MACOLSolution_init) \<and>
   toy_run [(3, toy_env_of (\<lambda>b v. False) 0)] [0] [0] (toy_exploration_schedule 8001 MACOLSolution_init)
     = Inr (toy_exploration_schedule 8001 MACOLSolution_init) \<and>
   exploration_rate (toy_exploration_schedule 8001 MACOLSolution_init) = 5 / 100 \<and>
   exploration_time (CLMAB_init 120 (5 / 100) (\<lambda>s. [])) \<le> 200 \<and>
   execute 200 (env_of (\<lambda>s. []) 0) [0] (CLMAB_init 120 (5 / 100) (\<lambda>s. []))
     = Inr (exploration_schedule 200 (CLMAB_init 120 (5 / 100) (\<lambda>s. []))) \<and>
   run [(300, env_of (\<lambda>s. []) 0)] [0] (exploration_schedule 200 (CLMAB_init 120 (5 / 100) (\<lambda>s. [])))
     = Inr (exploration_schedule 200 (CLMAB_init 120 (5 / 100) (\<lambda>s. []))) \<and>
   exploration_rate (exploration_schedule 200 (CLMAB_init 120 (5 / 100) (\<lambda>s. []))) = 5 / 100 \<and>
   is_exploration_over (exploration_schedule 200 (CLMAB_init 120 (5 / 100) (\<lambda>s. [])))"
proof -
  let ?i = "CLMAB_init 120 (5 / 100) (\<lambda>s. [])"
  let ?e = "env_of (\<lambda>s. []) 0"
  let ?te = "toy_env_of (\<lambda>b v. False) 0"
  let ?t1 = "toy_exploration_schedule 8001 MACOLSolution_init"
  let ?s1 = "exploration_schedule 200 ?i"
  have a: "is_full_exploration MACOLSolution_init \<and> exploration_time MACOLSolution_init < 8001"
    by (simp add: MACOLSolution_init_def)
  have b: "toy_execute 8001 ?te [0] [0] MACOLSolution_init = Inr ?t1"
    by (simp add: toy_eval)
  have c: "toy_run [(3, ?te)] [0] [0] ?t1 = Inr ?t1"
    by (simp add: toy_eval)
  have d: "exploration_time ?i \<le> 200" by (simp add: CLMAB_init_def)
  have e: "execute 200 ?e [0] ?i = Inr ?s1" by (simp add: clmab_eval)
  have f: "run [(300, ?e)] [0] ?s1 = Inr ?s1" by (simp add: clmab_eval)
  from C4_one_way_transition[where tst_a = MACOLSolution_init and tt = 8001 and tenv = ?te
      and vl = "[0]" and bl = "[0]" and tst_b = ?t1 and tepochs = "[(3, ?te)]" and tst_c = ?t1
      and st_a = ?i and t = 200 and env = ?e and secs = "[0]" and st_b = ?s1
      and epochs = "[(300, ?e)]" and st_c = ?s1] a b c d e f
  have "exploration_rate ?t1 = 5 / 100" "exploration_rate ?s1 = 5 / 100" "is_exploration_over ?s1"
    by (simp_all add: MACOLSolution_init_def CLMAB_init_def)
  with a b c d e f show ?thesis by blast
qed

text \<open>
  The claim as stated fails in \<^verbatim>\<open>CLMAB\<close>: with \<^verbatim>\<open>explore-first = 120\<close>, a call at time 200
  sets the rate to \<^verbatim>\<open>epsilon\<close>, and a following call at time 50 sets it back to 1.
\<close>

theorem C4_one_way_transition_counterexample:
  "map_sum id exploration_rate
     (run [(200, env_of (\<lambda>s. []) 0)] [0] (CLMAB_init 120 (5 / 100) (\<lambda>s. []))) = Inr (5 / 100) \<and>
   map_sum id exploration_rate
     (run [(200, env_of (\<lambda>s. []) 0), (50, env_of (\<lambda>s. []) 0)] [0]
        (CLMAB_init 120 (5 / 100) (\<lambda>s. []))) = Inr 1 \<and>
   exploration_time (CLMAB_init 120 (5 / 100) (\<lambda>s. [])) = 120 \<and>
   gvar_epsilon (CLMAB_init 120 (5 / 100) (\<lambda>s. [])) = 5 / 100"
  by (simp add: clmab_eval)







text \<open>
  Claim C8, as amended. The encoders return only a string and read the state without
  changing it. The string is \<^verbatim>\<open>[\<close>, one character per neighbour in the order of
  the neighbour list, and \<^verbatim>\<open>]\<close>: its length is the neighbour count plus 2, and the
  character at position \<open>i + 1\<close> is \<^verbatim>\<open>1\<close> if the \<open>i\<close>-th neighbour serves and \<^verbatim>\<open>0\<close>
  otherwise. For \<^verbatim>\<open>CLMAB\<close> the neighbours are \<^verbatim>\<open>sector.neighbour_list\<close>; for
  \<^verbatim>\<open>MACOLSolution\<close> they are the entries of \<^verbatim>\<open>bs_list\<close> other than the base station itself.
\<close>

theorem C8_context_encoder:
  "length (get_current_context st s) = length (neighbour_list (sector_of st s)) + 2 \<and>
   get_current_context st s ! 0 = CHR ''['' \<and>
   get_current_context st s ! (length (neighbour_list (sector_of st s)) + 1) = CHR '']'' \<and>
   (\<forall>i < length (neighbour_list (sector_of st s)).
      get_current_context st s ! (i + 1) =
        (if serving_node (sector_of st (neighbour_list (sector_of st s) ! i)) \<noteq> None
         then CHR ''1'' else CHR ''0'')) \<and>
   length (toy_get_current_context tst b bs_list) = length (filter (\<lambda>n. n \<noteq> b) bs_list) + 2 \<and>
   toy_get_current_context tst b bs_list ! 0 = CHR ''['' \<and>
   toy_get_current_context tst b bs_list ! (length (filter (\<lambda>n. n \<noteq> b) bs_list) + 1) = CHR '']'' \<and>
   (\<forall>i < length (filter (\<lambda>n. n \<noteq> b) bs_list).
      toy_get_current_context tst b bs_list ! (i + 1) =
        (if serving_vehicle (bs_of tst (filter (\<lambda>n. n \<noteq> b) bs_list ! i)) \<noteq> None
         then CHR ''1'' else CHR ''0''))"
  by (simp add: get_current_context_eq toy_get_current_context_eq nth_append)

theorem C8_context_encoder_witness:
  "get_current_context
     ((CLMAB_init 120 (5 / 100) (\<lambda>s. [1, 2, 3]))
        \<lparr>sector_of := (sector_of (CLMAB_init 120 (5 / 100) (\<lambda>s. [1, 2, 3])))
           (2 := (MySector_init [1, 3])\<lparr>serving_node := Some 7\<rparr>)\<rparr>) 0 ! (1 + 1) = CHR ''1'' \<and>
   get_current_context
     ((CLMAB_init 120 (5 / 100) (\<lambda>s. [1, 2, 3]))
        \<lparr>sector_of := (sector_of (CLMAB_init 120 (5 / 100) (\<lambda>s. [1, 2, 3])))
           (2 := (MySector_init [1, 3])\<lparr>serving_node := Some 7\<rparr>)\<rparr>) 0 = ''[010]''"
proof -
  let ?st = "(CLMAB_init 120 (5 / 100) (\<lambda>s. [1, 2, 3]))
        \<lparr>sector_of := (sector_of (CLMAB_init 120 (5 / 100) (\<lambda>s. [1, 2, 3])))
           (2 := (MySector_init [1, 3])\<lparr>serving_node := Some 7\<rparr>)\<rparr>"
  have nl: "neighbour_list (sector_of ?st 0) = [1, 2, 3]"
    by (simp add: CLMAB_init_def MySector_init_def)
  have "(1::nat) < length (neighbour_list (sector_of ?st 0))"
    by (simp add: CLMAB_init_def MySector_init_def)
  with C8_context_encoder[of ?st 0] have
    "get_current_context ?st 0 ! (1 + 1) =
       (if serving_node (sector_of ?st (neighbour_list (sector_of ?st 0) ! 1)) \<noteq> None
        then CHR ''1'' else CHR ''0'')" by blast
  moreover have "serving_node (sector_of ?st (neighbour_list (sector_of ?st 0) ! 1)) \<noteq> None"
    by (simp add: CLMAB_init_def MySector_init_def)
  moreover have "get_current_context ?st 0 = ''[010]''"
    by (simp add: get_current_context_def CLMAB_init_def MySector_init_def)
  ultimately show ?thesis by simp
qed

text \<open>
  The claim as stated (length = neighbour count, position \<open>i\<close> = bit of neighbour \<open>i\<close>)
  fails: with two idle neighbours the string is \<^verbatim>\<open>[00]\<close>, of length 4, and its position 0
  is the bracket.
\<close>

theorem C8_context_encoder_counterexample:
  "get_current_context (CLMAB_init 120 (5 / 100) (\<lambda>s. [1, 2])) 0 = ''[00]'' \<and>
   length (neighbour_list (sector_of (CLMAB_init 120 (5 / 100) (\<lambda>s. [1, 2])) 0)) = 2 \<and>
   length (get_current_context (CLMAB_init 120 (5 / 100) (\<lambda>s. [1, 2])) 0) = 4 \<and>
   length (get_current_context (CLMAB_init 120 (5 / 100) (\<lambda>s. [1, 2])) 0)
     \<noteq> length (neighbour_list (sector_of (CLMAB_init 120 (5 / 100) (\<lambda>s. [1, 2])) 0)) \<and>
   get_current_context (CLMAB_init 120 (5 / 100) (\<lambda>s. [1, 2])) 0 ! 0 = CHR ''['' \<and>
   toy_get_current_context MACOLSolution_init 0 [0, 1, 2] = ''[00]'' \<and>
   length (toy_get_current_context MACOLSolution_init 0 [0, 1, 2]) = 4"
  by (simp add: get_current_context_def toy_get_current_context_def CLMAB_init_def
      MySector_init_def MACOLSolution_init_def BaseStation_init_def)

text \<open>
  Claim C9. In every state of a run (the constructors' state, then calls of \<^verbatim>\<open>execute\<close>
  at times that do not decrease, with any answers of the platform, and the bookkeeping of
  the simulation loop between them), no agent that serves a client has a backoff timer
  that is active at the current time; no two clients are associated with the same agent,
  and a client associated with an agent is the one client that the agent serves (in
  \<^verbatim>\<open>test-macol.py\<close> the converse holds as well). Whatever the state and the time, an
  agent that a call associates with a client was idle and its timer is not active at that
  time, before and after the association.
\<close>

theorem C9_mutual_exclusion:
  "(reachable t st \<longrightarrow>
      (\<forall>s. serving_node (sector_of st s) \<noteq> None \<longrightarrow> \<not> is_backoff (sector_of st s) t) \<and>
      (\<forall>s v v'. associated_sector (vehicle_of st v) = Some s \<and>
                associated_sector (vehicle_of st v') = Some s \<longrightarrow> v = v') \<and>
      (\<forall>s v. associated_sector (vehicle_of st v) = Some s \<longleftrightarrow>
             serving_node (sector_of st s) = Some v)) \<and>
   (new_association env tn sec sn = Inr sn' \<and> serving_node (sector_of sn sec) = None \<and>
    serving_node (sector_of sn' sec) \<noteq> None \<longrightarrow>
      \<not> is_backoff (sector_of sn' sec) tn \<and> \<not> is_backoff (sector_of sn sec) tn) \<and>
   (toy_reachable tt tst \<longrightarrow>
      (\<forall>b. serving_vehicle (bs_of tst b) \<noteq> None \<longrightarrow> \<not> toy_is_backoff (bs_of tst b) tt) \<and>
      (\<forall>b v v'. associated_bs (toy_vehicle_of tst v) = Some b \<and>
                associated_bs (toy_vehicle_of tst v') = Some b \<longrightarrow> v = v') \<and>
      (\<forall>b v. associated_bs (toy_vehicle_of tst v) = Some b \<longrightarrow>
             serving_vehicle (bs_of tst b) = Some v)) \<and>
   (toy_new_association tenv ttn vl bl bs tsn = Inr tsn' \<and> serving_vehicle (bs_of tsn bs) = None \<and>
    serving_vehicle (bs_of tsn' bs) \<noteq> None \<longrightarrow>
      \<not> toy_is_backoff (bs_of tsn' bs) ttn \<and> \<not> toy_is_backoff (bs_of tsn bs) ttn)"
proof -
  have clmab: "(\<forall>s. serving_node (sector_of st s) \<noteq> None \<longrightarrow> \<not> is_backoff (sector_of st s) t) \<and>
      (\<forall>s v v'. associated_sector (vehicle_of st v) = Some s \<and>
                associated_sector (vehicle_of st v') = Some s \<longrightarrow> v = v') \<and>
      (\<forall>s v. associated_sector (vehicle_of st v) = Some s \<longleftrightarrow>
             serving_node (sector_of st s) = Some v)"
    if "reachable t st"
  proof -
    from reachable_exclusion[OF that]
    have a: "\<forall>s. serving_node (sector_of st s) \<noteq> None \<longrightarrow> \<not> is_backoff (sector_of st s) t"
      and b: "\<forall>s v. associated_sector (vehicle_of st v) = Some s \<longleftrightarrow>
             serving_node (sector_of st s) = Some v"
      by (simp_all add: exclusion_def)
    from b have "\<forall>s v v'. associated_sector (vehicle_of st v) = Some s \<and>
                associated_sector (vehicle_of st v') = Some s \<longrightarrow> v = v'"
      by (metis option.inject)
    with a b show ?thesis by blast
  qed
  have toy: "(\<forall>b. serving_vehicle (bs_of tst b) \<noteq> None \<longrightarrow> \<not> toy_is_backoff (bs_of tst b) tt) \<and>
      (\<forall>b v v'. associated_bs (toy_vehicle_of tst v) = Some b \<and>
                associated_bs (toy_vehicle_of tst v') = Some b \<longrightarrow> v = v') \<and>
      (\<forall>b v. associated_bs (toy_vehicle_of tst v) = Some b \<longrightarrow>
             serving_vehicle (bs_of tst b) = Some v)"
    if "toy_reachable tt tst"
  proof -
    from toy_reachable_exclusion[OF that]
    have a: "\<forall>b. serving_vehicle (bs_of tst b) \<noteq> None \<longrightarrow> \<not> toy_is_backoff (bs_of tst b) tt"
      and b: "\<forall>b v. associated_bs (toy_vehicle_of tst v) = Some b \<longrightarrow>
             serving_vehicle (bs_of tst b) = Some v"
      by (simp_all add: toy_exclusion_def)
    from b have "\<forall>b v v'. associated_bs (toy_vehicle_of tst v) = Some b \<and>
                associated_bs (toy_vehicle_of tst v') = Some b \<longrightarrow> v = v'"
      by (metis option.inject)
    with a b show ?thesis by blast
  qed
  from clmab toy new_association_timer[of env tn sec sn sn']
    toy_new_association_timer[of tenv ttn vl bl bs tsn tsn']
  show ?thesis by blast
qed

text \<open>
  The sector, and the base station of the toy, that took vehicle 0 at time 1 from the
  constructors' state.
\<close>

theorem C9_mutual_exclusion_witness:
  "reachable 1 serving_state \<and>
   serving_node (sector_of serving_state 0) = Some 0 \<and>
   associated_sector (vehicle_of serving_state 0) = Some 0 \<and>
   \<not> is_backoff (sector_of serving_state 0) 1 \<and>
   new_association (env_of (\<lambda>s. [VehicleNode 0]) 0) 1 0 (CLMAB_init 120 (5 / 100) (\<lambda>s. []))
     = Inr (serve (CLMAB_init 120 (5 / 100) (\<lambda>s. [])) 0 0 1 ''[]'') \<and>
   serving_node (sector_of (CLMAB_init 120 (5 / 100) (\<lambda>s. [])) 0) = None \<and>
   serving_node (sector_of (serve (CLMAB_init 120 (5 / 100) (\<lambda>s. [])) 0 0 1 ''[]'') 0) = Some 0 \<and>
   \<not> is_backoff (sector_of (serve (CLMAB_init 120 (5 / 100) (\<lambda>s. [])) 0 0 1 ''[]'') 0) 1 \<and>
   toy_reachable 1 toy_serving_state \<and>
   serving_vehicle (bs_of toy_serving_state 0) = Some 0 \<and>
   associated_bs (toy_vehicle_of toy_serving_state 0) = Some 0 \<and>
   \<not> toy_is_backoff (bs_of toy_serving_state 0) 1 \<and>
   toy_new_association (toy_env_of (\<lambda>b v. True) 0) 1 [0] [0] 0 MACOLSolution_init
     = Inr (toy_serve MACOLSolution_init 0 0 1 ''[]'') \<and>
   serving_vehicle (bs_of MACOLSolution_init 0) = None \<and>
   serving_vehicle (bs_of (toy_serve MACOLSolution_init 0 0 1 ''[]'') 0) = Some 0 \<and>
   \<not> toy_is_backoff (bs_of (toy_serve MACOLSolution_init 0 0 1 ''[]'') 0) 1"
proof -
  let ?i = "CLMAB_init 120 (5 / 100) (\<lambda>s. [])"
  let ?e = "env_of (\<lambda>s. [VehicleNode 0]) 0"
  let ?te = "toy_env_of (\<lambda>b v. True) 0"
  have s: "serving_node (sector_of serving_state 0) = Some 0"
    by (simp add: serving_state_sector)
  have v: "associated_sector (vehicle_of serving_state 0) = Some 0"
    by (simp add: serving_state_def clmab_eval stats_eval)
  have n: "new_association ?e 1 0 ?i = Inr (serve ?i 0 0 1 ''[]'')"
    "serving_node (sector_of ?i 0) = None"
    "serving_node (sector_of (serve ?i 0 0 1 ''[]'') 0) = Some 0"
    by (simp_all add: clmab_eval)
  have ts: "serving_vehicle (bs_of toy_serving_state 0) = Some 0"
    by (simp add: toy_serving_state_bs)
  have tv: "associated_bs (toy_vehicle_of toy_serving_state 0) = Some 0"
    by (simp add: toy_serving_state_def toy_eval stats_eval)
  have tn: "toy_new_association ?te 1 [0] [0] 0 MACOLSolution_init
     = Inr (toy_serve MACOLSolution_init 0 0 1 ''[]'')"
    "serving_vehicle (bs_of MACOLSolution_init 0) = None"
    "serving_vehicle (bs_of (toy_serve MACOLSolution_init 0 0 1 ''[]'') 0) = Some 0"
    by (simp_all add: toy_eval)
  note c = C9_mutual_exclusion[where t = 1 and st = serving_state and env = ?e and tn = 1
      and sec = 0 and sn = ?i and sn' = "serve ?i 0 0 1 ''[]''"
      and tt = 1 and tst = toy_serving_state and tenv = ?te and ttn = 1 and vl = "[0]"
      and bl = "[0]" and bs = 0 and tsn = MACOLSolution_init
      and tsn' = "toy_serve MACOLSolution_init 0 0 1 ''[]''"]
  from c serving_state_reachable s have 1: "\<not> is_backoff (sector_of serving_state 0) 1"
    by (metis option.distinct(1))
  from c n have 2: "\<not> is_backoff (sector_of (serve ?i 0 0 1 ''[]'') 0) 1"
    by (metis option.distinct(1))
  from c toy_serving_state_reachable ts have 3: "\<not> toy_is_backoff (bs_of toy_serving_state 0) 1"
    by (metis option.distinct(1))
  from c tn have 4: "\<not> toy_is_backoff (bs_of (toy_serve MACOLSolution_init 0 0 1 ''[]'') 0) 1"
    by (metis option.distinct(1))
  from serving_state_reachable toy_serving_state_reachable s v n ts tv tn 1 2 3 4
  show ?thesis by blast
qed

text \<open>
  Claim C10. From every state of a run of the toy, \<^verbatim>\<open>execute\<close> returns: it raises no
  \<^verbatim>\<open>ZeroDivisionError\<close> (and no other error). More precisely, in the state in which the
  acquisition logic of a call decides for a base station (after the first two blocks and
  after the decisions for any list \<open>pre\<close> of base stations before it), a nonzero
  \<^verbatim>\<open>get_reward\<close> for the current context, which the backoff branch requires, implies
  \<open>total_serving_count \<ge> 1\<close>, so \<^verbatim>\<open>get_average_serving_duration\<close> returns the quotient.
\<close>

theorem C10_no_division_by_zero:
  "(toy_reachable t st \<longrightarrow> (\<exists>st'. toy_execute tt env vl bl st = Inr st')) \<and>
   (toy_reachable t st \<and>
    toy_check_current_association env tt bl (toy_exploration_schedule tt st) = Inr (lost, st2) \<and>
    toy_update_lost_rewards lost st2 = Inr st3 \<and>
    toy_check_new_association env tt vl bl pre st3 = Inr st4 \<and>
    get_reward st4 b (toy_get_current_context st4 b bl) \<noteq> 0 \<longrightarrow>
      1 \<le> total_serving_count (bs_of st4 b) \<and>
      get_average_serving_duration (bs_of st4 b)
        = Inr (total_serving_duration (bs_of st4 b) / real (total_serving_count (bs_of st4 b))))"
proof -
  have total: "\<exists>st'. toy_execute tt env vl bl st = Inr st'" if "toy_reachable t st"
    using toy_execute_total[OF toy_reachable_inv[OF that]] by blast
  have branch: "1 \<le> total_serving_count (bs_of st4 b) \<and>
      get_average_serving_duration (bs_of st4 b)
        = Inr (total_serving_duration (bs_of st4 b) / real (total_serving_count (bs_of st4 b)))"
    if r: "toy_reachable t st"
      and a: "toy_check_current_association env tt bl (toy_exploration_schedule tt st) = Inr (lost, st2)"
      and b: "toy_update_lost_rewards lost st2 = Inr st3"
      and c: "toy_check_new_association env tt vl bl pre st3 = Inr st4"
      and g: "get_reward st4 b (toy_get_current_context st4 b bl) \<noteq> 0"
  proof -
    have "toy_inv st4" by (rule toy_blocks_inv[OF toy_reachable_inv[OF r] a b c])
    from toy_inv_D(3)[OF this get_reward_nonzero_table[OF g]]
    show ?thesis by (simp add: get_average_serving_duration_def)
  qed
  from total branch show ?thesis by blast
qed

text \<open>
  After \<open>toy_example_run\<close> the base station has completed one connection of 2 ticks
  and its table holds the context \<^verbatim>\<open>[]\<close> with reward 2; at tick 8001 the reward of the
  current context is nonzero and the average serving duration is 2.
\<close>

theorem C10_no_division_by_zero_witness:
  "toy_reachable 3 toy_example_state \<and>
   (\<exists>st'. toy_execute 8001 (toy_env_of (\<lambda>b v. True) (9 / 10)) [0] [0] toy_example_state = Inr st') \<and>
   toy_check_current_association (toy_env_of (\<lambda>b v. True) (9 / 10)) 8001 [0]
       (toy_exploration_schedule 8001 toy_example_state)
     = Inr ([], toy_exploration_schedule 8001 toy_example_state) \<and>
   toy_update_lost_rewards [] (toy_exploration_schedule 8001 toy_example_state)
     = Inr (toy_exploration_schedule 8001 toy_example_state) \<and>
   toy_check_new_association (toy_env_of (\<lambda>b v. True) (9 / 10)) 8001 [0] [0] []
       (toy_exploration_schedule 8001 toy_example_state)
     = Inr (toy_exploration_schedule 8001 toy_example_state) \<and>
   get_reward (toy_exploration_schedule 8001 toy_example_state) 0
     (toy_get_current_context (toy_exploration_schedule 8001 toy_example_state) 0 [0]) = 2 \<and>
   total_serving_count (bs_of (toy_exploration_schedule 8001 toy_example_state) 0) = 1 \<and>
   get_average_serving_duration (bs_of (toy_exploration_schedule 8001 toy_example_state) 0) = Inr 2"
proof -
  let ?e = "toy_env_of (\<lambda>b v. True) (9 / 10)"
  let ?s = "toy_exploration_schedule 8001 toy_example_state"
  have bs: "bs_of ?s = bs_of toy_example_state" "q_value ?s = q_value toy_example_state"
    by (simp_all add: toy_exploration_schedule_frame)
  have a: "toy_check_current_association ?e 8001 [0] ?s = Inr ([], ?s)"
    by (simp add: bs toy_example_state_facts)
  have b: "toy_update_lost_rewards [] ?s = Inr ?s" by simp
  have c: "toy_check_new_association ?e 8001 [0] [0] [] ?s = Inr ?s" by simp
  have g: "get_reward ?s 0 (toy_get_current_context ?s 0 [0]) = 2"
    by (simp add: get_reward_def bs toy_example_state_facts toy_get_current_context_def)
  have n: "total_serving_count (bs_of ?s 0) = 1" "total_serving_duration (bs_of ?s 0) = 2"
    by (simp_all add: bs toy_example_state_facts)
  from C10_no_division_by_zero[where t = 3 and st = toy_example_state and tt = 8001 and env = ?e
      and vl = "[0]" and bl = "[0]" and lost = "[]" and pre = "[]" and b = 0]
    toy_example_reachable a b c g n
  have "\<exists>st'. toy_execute 8001 ?e [0] [0] toy_example_state = Inr st'"
    and "get_average_serving_duration (bs_of ?s 0) = Inr 2"
    by auto
  with toy_example_reachable a b c g n show ?thesis by blast
qed

end
